theory Spec2Isabelle
  imports Complex_Main "HOL-Library.Sublist" "HOL-Library.AList" "HOL-Library.Log_Nat"
begin

section \<open>Pre-processing of CVTS traces (vtra/preprocess/cvts.py)\<close>

text \<open>
  The module reads GPS traces from csv files, thins them out (\<open>reduse_dataset\<close>), maps each
  thinned trace on the road network (\<open>find_routes\<close>), counts the vehicles per road edge
  (\<open>add_traffic_count_to_road_network\<close>) and collects all routes in one file
  (\<open>create_single_route_file\<close>).

  A csv file is modelled as the list of its rows, a row as the list of its fields.
  Python's exceptions are values of the type \<open>error\<close>.
\<close>

datatype error = IndexError | ValueError | KeyError int | TypeError | OverflowError

type_synonym row = "string list"

text \<open>A list comprehension whose element expression may raise: the first exception wins.\<close>

fun map_err :: "('a \<Rightarrow> error + 'b) \<Rightarrow> 'a list \<Rightarrow> error + 'b list" where
  "map_err f [] = Inr []"
| "map_err f (x # xs) =
     (case f x of
        Inl e \<Rightarrow> Inl e
      | Inr y \<Rightarrow> (case map_err f xs of Inl e \<Rightarrow> Inl e | Inr ys \<Rightarrow> Inr (y # ys)))"

subsection \<open>Python's floats\<close>

text \<open>
  A Python float is an IEEE 754 binary64 value: a finite value, given by the rational
  number it stands for, an infinity or a NaN.  (The sign of a zero is not kept; nothing
  below depends on it.)  \<open>round64\<close> rounds a rational to the nearest binary64 value, ties
  to the even significand: 53 significant bits, the smallest spacing \<open>pow2 (- 1074)\<close>, and
  an infinity when the rounded value reaches \<open>pow2 1024\<close>.
\<close>

datatype float64 = Finite rat | PInf | NInf | NaN

definition pow2 :: "int \<Rightarrow> rat" where
  "pow2 e = (if 0 \<le> e then 2 ^ nat e else 1 / 2 ^ nat (- e))"

text \<open>The whole part of the binary logarithm of a positive rational.\<close>

definition floor_log2 :: "rat \<Rightarrow> int" where
  "floor_log2 x =
     (let k = bitlen (fst (quotient_of x)) - bitlen (snd (quotient_of x))
      in if pow2 k \<le> x then k else k - 1)"

definition round_half_even :: "rat \<Rightarrow> int" where
  "round_half_even x =
     (let f = \<lfloor>x\<rfloor>; d = x - of_int f
      in if d < 1 / 2 then f else if 1 / 2 < d then f + 1 else if even f then f else f + 1)"

definition round64 :: "rat \<Rightarrow> float64" where
  "round64 x =
     (if x = 0 then Finite 0
      else
        let e = max (floor_log2 \<bar>x\<bar> - 52) (- 1074);
            y = of_int (round_half_even (x / pow2 e)) * pow2 e
        in if y \<noteq> 0 \<and> 1024 \<le> floor_log2 \<bar>y\<bar> then (if 0 < x then PInf else NInf)
           else Finite y)"

text \<open>\<open>a - b\<close>, \<open>abs(a)\<close>, \<open>a >= b\<close> and \<open>a > b\<close> on floats.\<close>

fun f_sub :: "float64 \<Rightarrow> float64 \<Rightarrow> float64" where
  "f_sub (Finite x) (Finite y) = round64 (x - y)"
| "f_sub NaN b = NaN"
| "f_sub a NaN = NaN"
| "f_sub PInf PInf = NaN"
| "f_sub NInf NInf = NaN"
| "f_sub PInf b = PInf"
| "f_sub NInf b = NInf"
| "f_sub (Finite x) PInf = NInf"
| "f_sub (Finite x) NInf = PInf"

fun f_abs :: "float64 \<Rightarrow> float64" where
  "f_abs (Finite x) = Finite \<bar>x\<bar>"
| "f_abs PInf = PInf"
| "f_abs NInf = PInf"
| "f_abs NaN = NaN"

fun f_ge :: "float64 \<Rightarrow> float64 \<Rightarrow> bool" where
  "f_ge NaN b = False"
| "f_ge a NaN = False"
| "f_ge PInf b = True"
| "f_ge a NInf = True"
| "f_ge NInf b = False"
| "f_ge (Finite x) PInf = False"
| "f_ge (Finite x) (Finite y) = (y \<le> x)"

fun f_gt :: "float64 \<Rightarrow> float64 \<Rightarrow> bool" where
  "f_gt NaN b = False"
| "f_gt a NaN = False"
| "f_gt PInf PInf = False"
| "f_gt PInf b = True"
| "f_gt NInf b = False"
| "f_gt (Finite x) NInf = True"
| "f_gt (Finite x) PInf = False"
| "f_gt (Finite x) (Finite y) = (y < x)"

subsection \<open>Python's \<open>float\<close> and \<open>int\<close> on strings\<close>

text \<open>
  The functions below take the builtins \<open>float\<close> and \<open>int\<close>, applied to a string, as
  parameters \<open>pf\<close> and \<open>pint\<close>, \<open>None\<close> standing for their \<open>ValueError\<close>.  \<open>float_py\<close> and
  \<open>int_py\<close> are these builtins on strings of ASCII characters, following the grammar of
  the language reference: blanks around the literal are dropped; a float literal is an
  optional sign followed by \<open>inf\<close>, \<open>infinity\<close> or \<open>nan\<close> in any case, or by digits with an
  optional point and an optional exponent; an integer literal is an optional sign followed
  by digits; single underscores may stand between digits.  The value of a float literal
  is rounded to binary64.
\<close>

definition is_space :: "char \<Rightarrow> bool" where
  "is_space c = ((of_char c :: nat) \<in> set [9, 10, 11, 12, 13, 28, 29, 30, 31, 32])"

definition strip :: "string \<Rightarrow> string" where
  "strip s = rev (dropWhile is_space (rev (dropWhile is_space s)))"

definition lower :: "char \<Rightarrow> char" where
  "lower c =
     (let n = (of_char c :: nat) in if 65 \<le> n \<and> n \<le> 90 then char_of (n + 32) else c)"

definition digit_of :: "char \<Rightarrow> int option" where
  "digit_of c =
     (let n = (of_char c :: int) in if 48 \<le> n \<and> n \<le> 57 then Some (n - 48) else None)"

text \<open>
  \<open>digit (["_"] digit)*\<close>: the value and the number of digits.  The flag says that the
  character before was a digit.
\<close>

fun digit_run :: "bool \<Rightarrow> int \<Rightarrow> nat \<Rightarrow> string \<Rightarrow> (int \<times> nat) option" where
  "digit_run after_digit v n [] = (if after_digit then Some (v, n) else None)"
| "digit_run after_digit v n (c # cs) =
     (case digit_of c of
        Some d \<Rightarrow> digit_run True (10 * v + d) (n + 1) cs
      | None \<Rightarrow> if c = CHR ''_'' \<and> after_digit then digit_run False v n cs else None)"

definition digitpart :: "string \<Rightarrow> (int \<times> nat) option" where
  "digitpart s = digit_run False 0 0 s"

text \<open>\<open>[digitpart] "." digitpart | digitpart ["."]\<close>, as an exact rational.\<close>

definition point_number :: "string \<Rightarrow> rat option" where
  "point_number s =
     (let ip = takeWhile (\<lambda>c. c \<noteq> CHR ''.'') s;
          rest = dropWhile (\<lambda>c. c \<noteq> CHR ''.'') s
      in if rest = [] \<or> tl rest = [] then map_option (\<lambda>(v, n). of_int v) (digitpart ip)
         else
           (case digitpart (tl rest) of
              None \<Rightarrow> None
            | Some (f, n) \<Rightarrow>
                if ip = [] then Some (of_int f / 10 ^ n)
                else map_option (\<lambda>(v, m). of_int v + of_int f / 10 ^ n) (digitpart ip)))"

definition signed_digits :: "string \<Rightarrow> int option" where
  "signed_digits s =
     (case s of
        [] \<Rightarrow> None
      | c # r \<Rightarrow>
          if c = CHR ''-'' then map_option (\<lambda>(v, n). - v) (digitpart r)
          else if c = CHR ''+'' then map_option fst (digitpart r)
          else map_option fst (digitpart s))"

text \<open>\<open>number [("e" | "E") [sign] digitpart]\<close>, as an exact rational.\<close>

definition float_number :: "string \<Rightarrow> rat option" where
  "float_number s =
     (let m = takeWhile (\<lambda>c. lower c \<noteq> CHR ''e'') s;
          rest = dropWhile (\<lambda>c. lower c \<noteq> CHR ''e'') s
      in case point_number m of
           None \<Rightarrow> None
         | Some x \<Rightarrow>
             if rest = [] then Some x
             else (case signed_digits (tl rest) of
                     None \<Rightarrow> None
                   | Some ex \<Rightarrow> Some (if 0 \<le> ex then x * 10 ^ nat ex else x / 10 ^ nat (- ex))))"

definition abs_float_value :: "string \<Rightarrow> float64 option" where
  "abs_float_value s =
     (if map lower s = ''inf'' \<or> map lower s = ''infinity'' then Some PInf
      else if map lower s = ''nan'' then Some NaN
      else map_option round64 (float_number s))"

fun f_neg :: "float64 \<Rightarrow> float64" where
  "f_neg (Finite x) = Finite (- x)"
| "f_neg PInf = NInf"
| "f_neg NInf = PInf"
| "f_neg NaN = NaN"

definition float_py :: "string \<Rightarrow> float64 option" where
  "float_py s =
     (case strip s of
        [] \<Rightarrow> None
      | c # r \<Rightarrow>
          if c = CHR ''-'' then map_option f_neg (abs_float_value r)
          else if c = CHR ''+'' then abs_float_value r
          else abs_float_value (c # r))"

definition int_py :: "string \<Rightarrow> int option" where
  "int_py s = signed_digits (strip s)"

subsection \<open>The Trace Reducer: \<open>reduse_dataset\<close>\<close>

text \<open>The float literals \<open>0.001\<close> and \<open>0.01\<close>.\<close>

definition MIN_LAT_MOV :: float64 where "MIN_LAT_MOV = round64 (1 / 1000)"
definition MIN_LON_MOV :: float64 where "MIN_LON_MOV = round64 (1 / 1000)"
definition MIN_LAT_SAMPLE :: float64 where "MIN_LAT_SAMPLE = round64 (1 / 100)"
definition MIN_LON_SAMPLE :: float64 where "MIN_LON_SAMPLE = round64 (1 / 100)"

text \<open>
  \<open>[row[2], row[3], row[8]]\<close>: latitude, longitude and time of a raw row; an
  \<open>IndexError\<close> when the row has fewer than nine fields.
\<close>

type_synonym point_row = "string \<times> string \<times> string"

definition select_columns :: "row \<Rightarrow> error + point_row" where
  "select_columns r =
     (if length r < 9 then Inl IndexError else Inr (r ! 2, r ! 3, r ! 8))"

text \<open>\<open>abs(float(a) - float(b))\<close>, the left operand converted first.\<close>

definition abs_diff :: "(string \<Rightarrow> float64 option) \<Rightarrow> string \<Rightarrow> string \<Rightarrow> error + float64"
where
  "abs_diff pf a b =
     (case pf a of
        None \<Rightarrow> Inl ValueError
      | Some x \<Rightarrow> (case pf b of None \<Rightarrow> Inl ValueError | Some y \<Rightarrow> Inr (f_abs (f_sub x y))))"

text \<open>
  The body of the loop over \<open>zip(data[1:-1], data[2:])\<close>, with \<open>data_moving\<close> passed in
  and returned.
\<close>

fun reduse_step ::
  "(string \<Rightarrow> float64 option) \<Rightarrow> point_row list \<Rightarrow> point_row \<times> point_row \<Rightarrow> error + point_row list"
where
  "reduse_step pf data_moving (previous, current) =
     (case abs_diff pf (fst previous) (fst current) of
        Inl e \<Rightarrow> Inl e
      | Inr lat_mov \<Rightarrow>
     (case abs_diff pf (fst (snd previous)) (fst (snd current)) of
        Inl e \<Rightarrow> Inl e
      | Inr lon_mov \<Rightarrow>
          if f_ge lat_mov MIN_LAT_MOV \<or> f_ge lon_mov MIN_LON_MOV then
            if length data_moving = 0 then Inr (data_moving @ [current])
            else
              (case abs_diff pf (fst (last data_moving)) (fst current) of
                 Inl e \<Rightarrow> Inl e
               | Inr sample_lat_mov \<Rightarrow>
              (case abs_diff pf (fst (snd (last data_moving))) (fst (snd current)) of
                 Inl e \<Rightarrow> Inl e
               | Inr sample_lon_mov \<Rightarrow>
                   if f_ge sample_lat_mov MIN_LAT_SAMPLE \<or> f_ge sample_lon_mov MIN_LON_SAMPLE
                   then Inr (data_moving @ [current])
                   else Inr data_moving))
          else Inr data_moving))"

fun reduse_loop ::
  "(string \<Rightarrow> float64 option) \<Rightarrow> point_row list \<Rightarrow> (point_row \<times> point_row) list
     \<Rightarrow> error + point_row list"
where
  "reduse_loop pf data_moving [] = Inr data_moving"
| "reduse_loop pf data_moving (pc # rest) =
     (case reduse_step pf data_moving pc of
        Inl e \<Rightarrow> Inl e
      | Inr dm \<Rightarrow> reduse_loop pf dm rest)"

text \<open>\<open>zip(data[1:-1], data[2:])\<close>.\<close>

definition consecutive_pairs :: "'a list \<Rightarrow> ('a \<times> 'a) list" where
  "consecutive_pairs data = zip (butlast (tl data)) (drop 2 data)"

text \<open>
  The loop of \<open>reduse_dataset\<close> that builds \<open>data_moving\<close> from \<open>data\<close>, starting from
  the empty list.
\<close>

definition data_moving_of :: "(string \<Rightarrow> float64 option) \<Rightarrow> point_row list \<Rightarrow> error + point_row list"
where
  "data_moving_of pf data = reduse_loop pf [] (consecutive_pairs data)"

text \<open>\<open>wr.writerow(row)\<close>: a row of \<open>data_moving\<close> as it is written to the sink.\<close>

definition written_row :: "point_row \<Rightarrow> row" where
  "written_row p = [fst p, fst (snd p), snd (snd p)]"

text \<open>
  The work of \<open>reduse_dataset\<close> on one csv file: from the rows read to the rows written.
  An exception is not caught there, it ends the run.
\<close>

definition reduse_file :: "(string \<Rightarrow> float64 option) \<Rightarrow> row list \<Rightarrow> error + row list" where
  "reduse_file pf rows =
     (case map_err select_columns rows of
        Inl e \<Rightarrow> Inl e
      | Inr data \<Rightarrow>
          (case data_moving_of pf data of
             Inl e \<Rightarrow> Inl e
           | Inr data_moving \<Rightarrow> Inr (map written_row data_moving)))"

text \<open>
  Vocabulary for the statements about the reducer.  \<open>parses pf p\<close>: latitude and longitude
  of the row are accepted by \<open>float\<close>.  \<open>displaced pf tlat tlon p c\<close>: both rows parse and
  the absolute latitude difference, as the floating-point subtraction gives it, is at least
  \<open>tlat\<close> or the absolute longitude difference is at least \<open>tlon\<close>.
\<close>

definition parses :: "(string \<Rightarrow> float64 option) \<Rightarrow> point_row \<Rightarrow> bool" where
  "parses pf p = (pf (fst p) \<noteq> None \<and> pf (fst (snd p)) \<noteq> None)"

definition displaced ::
  "(string \<Rightarrow> float64 option) \<Rightarrow> float64 \<Rightarrow> float64 \<Rightarrow> point_row \<Rightarrow> point_row \<Rightarrow> bool"
where
  "displaced pf tlat tlon p c =
     (case abs_diff pf (fst p) (fst c) of
        Inl e \<Rightarrow> False
      | Inr dlat \<Rightarrow>
          (case abs_diff pf (fst (snd p)) (fst (snd c)) of
             Inl e \<Rightarrow> False
           | Inr dlon \<Rightarrow> f_ge dlat tlat \<or> f_ge dlon tlon))"

definition raw_columns :: "row \<Rightarrow> point_row" where
  "raw_columns r = (r ! 2, r ! 3, r ! 8)"

subsection \<open>Folders of csv files\<close>

text \<open>
  A folder is the list of its files in the order \<open>os.walk\<close> yields them, each with its name
  \<open>file\<close> (the base name, without the directory: the directory only decides where the
  output file goes) and its content.  \<open>is_csv\<close> is \<open>file.endswith(".csv")\<close>.
\<close>

type_synonym 'a folder = "(string \<times> 'a) list"

definition is_csv :: "string \<Rightarrow> bool" where
  "is_csv file = suffix ''.csv'' file"

definition csv_files :: "'a folder \<Rightarrow> 'a folder" where
  "csv_files dir = filter (\<lambda>entry. is_csv (fst entry)) dir"

subsection \<open>Reading with \<open>csv.QUOTE_NONNUMERIC\<close>\<close>

text \<open>
  For the reader with \<open>quoting=csv.QUOTE_NONNUMERIC\<close> a field of a csv file is the text
  between the delimiters together with the fact whether it stood in quotes.  The reader
  converts a field with \<open>float\<close> when it is not quoted and not empty, with a \<open>ValueError\<close>
  when \<open>float\<close> refuses it; a quoted field and an empty field stay strings.
\<close>

datatype csv_field = Unquoted string | Quoted string

datatype cell = Num float64 | Str string

definition read_field :: "(string \<Rightarrow> float64 option) \<Rightarrow> csv_field \<Rightarrow> error + cell" where
  "read_field pf f =
     (case f of
        Quoted s \<Rightarrow> Inr (Str s)
      | Unquoted s \<Rightarrow>
          if s = [] then Inr (Str [])
          else (case pf s of None \<Rightarrow> Inl ValueError | Some x \<Rightarrow> Inr (Num x)))"

definition read_nonnumeric ::
  "(string \<Rightarrow> float64 option) \<Rightarrow> csv_field list list \<Rightarrow> error + cell list list"
where
  "read_nonnumeric pf rows = map_err (map_err (read_field pf)) rows"

subsection \<open>The Map Matcher: \<open>find_routes\<close>\<close>

text \<open>
  The geometry comes from the libraries shapely and rtree, which are not part of the
  repository.  What \<open>find_routes\<close> reads from them is taken as a parameter: for a trace
  segment from \<open>previous\<close> to \<open>current\<close>,
  \<^item> \<open>rtree_intersection\<close>: \<open>list(rtree.intersection(route_segment_buf.bounds))\<close>, the
    candidate edge identifiers;
  \<^item> \<open>intersection_length\<close>: \<open>road_network_lut[edge_id].intersection(route_segment_buf).length\<close>;
  \<^item> \<open>edge_length\<close>: \<open>road_network_lut[edge_id].length\<close>;
  \<^item> \<open>segment_length\<close>: \<open>route_segment.length\<close>;
  and, for the points of the trace,
  \<^item> \<open>text_coordinate\<close>: what \<open>Point\<close> makes of a coordinate that is a string (one release
    of shapely raises a \<open>TypeError\<close>, another converts it with \<open>float\<close>).
  The lengths are taken as rationals.
\<close>

type_synonym point = "float64 \<times> float64"
type_synonym segment = "point \<times> point"

record geometry =
  rtree_intersection :: "segment \<Rightarrow> int list"
  intersection_length :: "int \<Rightarrow> segment \<Rightarrow> rat"
  edge_length :: "int \<Rightarrow> rat"
  segment_length :: "segment \<Rightarrow> rat"
  text_coordinate :: "string \<Rightarrow> error + float64"

text \<open>
  A route as \<open>find_routes\<close> builds it is a list of rows \<open>[edge_id, timestamp]\<close>, the
  timestamp being the third cell of a row of the trace.
\<close>

type_synonym matched_route = "(int \<times> cell) list"

definition NUM_RETURN_JOURNEY :: nat where "NUM_RETURN_JOURNEY = 5"

text \<open>
  The slice \<open>xs[-n:]\<close> for \<open>n \<ge> 0\<close>: the last \<open>n\<close> elements, all of them when the list is
  shorter, and the whole list for \<open>n = 0\<close> (\<open>xs[-0:]\<close> is \<open>xs[0:]\<close>).
\<close>

definition last_entries :: "nat \<Rightarrow> 'a list \<Rightarrow> 'a list" where
  "last_entries n xs = (if n = 0 then xs else drop (length xs - n) xs)"

text \<open>The flag \<open>add_route_id\<close> that the \<open>if\<close>/\<open>elif\<close> sets for a candidate edge.\<close>

definition add_route_id :: "geometry \<Rightarrow> segment \<Rightarrow> int \<Rightarrow> bool" where
  "add_route_id g route_segment edge_id =
     (if intersection_length g edge_id route_segment > segment_length g route_segment * (8 / 10)
      then True
      else if edge_length g edge_id < segment_length g route_segment
              \<and> intersection_length g edge_id route_segment > edge_length g edge_id * (7 / 10)
      then True
      else False)"

text \<open>The body of the loop over the candidate edges of one segment.\<close>

definition match_edge :: "geometry \<Rightarrow> segment \<Rightarrow> cell \<Rightarrow> matched_route \<Rightarrow> int \<Rightarrow> matched_route"
where
  "match_edge g route_segment timestamp route edge_id =
     (if add_route_id g route_segment edge_id then
        if edge_id \<notin> set (map fst (last_entries NUM_RETURN_JOURNEY route))
        then route @ [(edge_id, timestamp)]
        else route
      else route)"

text \<open>The body of the loop over \<open>zip(coords, coords[1:], timestamps)\<close>.\<close>

definition match_segment :: "geometry \<Rightarrow> matched_route \<Rightarrow> point \<times> point \<times> cell \<Rightarrow> matched_route"
where
  "match_segment g route pct =
     (case pct of (previous, current, timestamp) \<Rightarrow>
        foldl (match_edge g (previous, current) timestamp) route
          (rtree_intersection g (previous, current)))"

definition segments :: "point list \<Rightarrow> cell list \<Rightarrow> (point \<times> point \<times> cell) list" where
  "segments coords timestamps = zip coords (zip (tl coords) timestamps)"

definition build_route :: "geometry \<Rightarrow> point list \<Rightarrow> cell list \<Rightarrow> matched_route" where
  "build_route g coords timestamps = foldl (match_segment g) [] (segments coords timestamps)"

text \<open>
  \<open>[Point(row[0], row[1]) for row in data]\<close> and \<open>[row[2] for row in data]\<close>.  A coordinate
  that the reader converted is taken as it is.
\<close>

definition coordinate :: "geometry \<Rightarrow> cell \<Rightarrow> error + float64" where
  "coordinate g c = (case c of Num x \<Rightarrow> Inr x | Str s \<Rightarrow> text_coordinate g s)"

definition row_point :: "geometry \<Rightarrow> cell list \<Rightarrow> error + point" where
  "row_point g r =
     (if length r < 2 then Inl IndexError
      else (case coordinate g (r ! 0) of
              Inl e \<Rightarrow> Inl e
            | Inr x \<Rightarrow> (case coordinate g (r ! 1) of Inl e \<Rightarrow> Inl e | Inr y \<Rightarrow> Inr (x, y))))"

definition row_timestamp :: "cell list \<Rightarrow> error + cell" where
  "row_timestamp r = (if length r < 3 then Inl IndexError else Inr (r ! 2))"

text \<open>
  shapely's \<open>LineString\<close> refuses a single point; of no point at all it makes the empty
  line, which has no coordinates.  (Older releases refuse that as well; the route file
  written is empty in both cases.)  \<open>geom.coords\<close> gives the points back.
\<close>

definition LineString :: "point list \<Rightarrow> error + point list" where
  "LineString pts = (if length pts = 1 then Inl ValueError else Inr pts)"

text \<open>The \<open>try\<close> block of \<open>find_routes\<close> for one file: from the rows read to the route.\<close>

definition route_of_trace ::
  "geometry \<Rightarrow> (string \<Rightarrow> float64 option) \<Rightarrow> csv_field list list \<Rightarrow> error + matched_route"
where
  "route_of_trace g pf rows =
     (case read_nonnumeric pf rows of
        Inl e \<Rightarrow> Inl e
      | Inr data \<Rightarrow>
     (case map_err (row_point g) data of
        Inl e \<Rightarrow> Inl e
      | Inr pts \<Rightarrow>
     (case LineString pts of
        Inl e \<Rightarrow> Inl e
      | Inr coords \<Rightarrow>
     (case map_err row_timestamp data of
        Inl e \<Rightarrow> Inl e
      | Inr timestamps \<Rightarrow> Inr (build_route g coords timestamps)))))"

text \<open>
  \<open>find_routes\<close> over a folder of reduced traces.  The sink of a file is opened for writing
  before the \<open>try\<close>; the \<open>except\<close> only prints, so a trace that fails leaves an empty
  route file.  The result is the routes folder, a route file given by its rows.
\<close>

definition route_file ::
  "geometry \<Rightarrow> (string \<Rightarrow> float64 option) \<Rightarrow> csv_field list list \<Rightarrow> matched_route"
where
  "route_file g pf rows = (case route_of_trace g pf rows of Inl e \<Rightarrow> [] | Inr route \<Rightarrow> route)"

definition find_routes ::
  "geometry \<Rightarrow> (string \<Rightarrow> float64 option) \<Rightarrow> csv_field list list folder \<Rightarrow> matched_route folder"
where
  "find_routes g pf gps_points_folder =
     map (\<lambda>entry. (fst entry, route_file g pf (snd entry))) (csv_files gps_points_folder)"

subsection \<open>The Traffic Aggregator: \<open>add_traffic_count_to_road_network\<close>\<close>

text \<open>
  A road of the network with the two properties the function touches.  The lookup table
  \<open>road_network_lut\<close> is a Python dictionary: an association list in insertion order, where
  assigning to a key that is present keeps its place.
\<close>

text \<open>
  The route files are given by their rows as the reader yields them when every field is a
  number: the edge identifier and the time.
\<close>

type_synonym route = "(int \<times> rat) list"

record road =
  g_id :: int
  vehicle_co :: int

type_synonym lut = "(int \<times> road) list"

definition insert_road :: "lut \<Rightarrow> road \<Rightarrow> lut" where
  "insert_road road_network_lut r = AList.update (g_id r) (r\<lparr>vehicle_co := 0\<rparr>) road_network_lut"

definition init_lut :: "road list \<Rightarrow> lut" where
  "init_lut road_network = foldl insert_road [] road_network"

text \<open>
  \<open>road_network_lut[int(route_edge[0])]['properties']['vehicle_co'] += 1\<close>: a \<open>KeyError\<close>
  when the edge is not in the table.
\<close>

definition count_edge :: "lut \<Rightarrow> int \<Rightarrow> error + lut" where
  "count_edge road_network_lut edge =
     (case map_of road_network_lut edge of
        None \<Rightarrow> Inl (KeyError edge)
      | Some r \<Rightarrow> Inr (AList.update edge (r\<lparr>vehicle_co := vehicle_co r + 1\<rparr>) road_network_lut))"

fun count_edges :: "lut \<Rightarrow> int list \<Rightarrow> error + lut" where
  "count_edges road_network_lut [] = Inr road_network_lut"
| "count_edges road_network_lut (edge # rest) =
     (case count_edge road_network_lut edge of
        Inl e \<Rightarrow> Inl e
      | Inr lut' \<Rightarrow> count_edges lut' rest)"

text \<open>The edge identifiers of all rows of all csv files of the routes folder, in reading order.\<close>

definition route_edges :: "route folder \<Rightarrow> int list" where
  "route_edges routes_folder = concat (map (\<lambda>entry. map fst (snd entry)) (csv_files routes_folder))"

definition add_traffic_count_to_road_network :: "road list \<Rightarrow> route folder \<Rightarrow> error + road list"
where
  "add_traffic_count_to_road_network road_network routes_folder =
     (case count_edges (init_lut road_network) (route_edges routes_folder) of
        Inl e \<Rightarrow> Inl e
      | Inr road_network_lut \<Rightarrow> Inr (map snd road_network_lut))"

subsection \<open>The Route Collector: \<open>create_single_route_file\<close>\<close>

text \<open>
  The collector reads the route files that \<open>find_routes\<close> wrote, again with
  \<open>csv.QUOTE_NONNUMERIC\<close>.  The writer puts a string in quotes only when it holds the
  delimiter, the quote character or a character of the line terminator; a float is
  written so that reading gives the same float back.  So a timestamp that was a float is
  read as that float, a string that is empty or needed quotes is read as that string, and
  any other string goes through \<open>float\<close>.  An edge identifier is read as the float of an
  integer and \<open>int\<close> gives the integer back (identifiers are taken to be small enough
  for that).
\<close>

definition needs_quotes :: "string \<Rightarrow> bool" where
  "needs_quotes s = list_ex (\<lambda>c. c \<in> set [CHR '','', CHR 0x22, CHR 0x0D, CHR 0x0A]) s"

definition reread_cell :: "(string \<Rightarrow> float64 option) \<Rightarrow> cell \<Rightarrow> error + cell" where
  "reread_cell pf c =
     (case c of
        Num x \<Rightarrow> Inr (Num x)
      | Str s \<Rightarrow>
          if s = [] \<or> needs_quotes s then Inr (Str s)
          else (case pf s of None \<Rightarrow> Inl ValueError | Some x \<Rightarrow> Inr (Num x)))"

text \<open>
  \<open>int(x)\<close>: on a float, truncation towards zero, a \<open>ValueError\<close> for a NaN and an
  \<open>OverflowError\<close> for an infinity; on a string, the builtin \<open>pint\<close>.
\<close>

definition py_int :: "rat \<Rightarrow> int" where
  "py_int x = (if x \<ge> 0 then \<lfloor>x\<rfloor> else \<lceil>x\<rceil>)"

definition int_of_cell :: "(string \<Rightarrow> int option) \<Rightarrow> cell \<Rightarrow> error + int" where
  "int_of_cell pint c =
     (case c of
        Num (Finite x) \<Rightarrow> Inr (py_int x)
      | Num NaN \<Rightarrow> Inl ValueError
      | Num PInf \<Rightarrow> Inl OverflowError
      | Num NInf \<Rightarrow> Inl OverflowError
      | Str s \<Rightarrow> (case pint s of None \<Rightarrow> Inl ValueError | Some n \<Rightarrow> Inr n))"

text \<open>\<open>s.replace(sub, '')\<close> for a non-empty \<open>sub\<close>: every occurrence, found from the left, is removed.\<close>

function remove_all :: "string \<Rightarrow> string \<Rightarrow> string" where
  "remove_all sub [] = []"
| "remove_all sub (c # cs) =
     (if sub \<noteq> [] \<and> prefix sub (c # cs) then remove_all sub (drop (length sub - 1) cs)
      else c # remove_all sub cs)"
  by pat_completeness auto
termination
  by (relation "measure (\<lambda>(sub, s). length s)") auto

record collected_route =
  vehicle_id :: string
  edge_path :: "int list"
  time_stamp :: "int list"

text \<open>
  The body of the loop for one route file: all rows are read first, then the edge path
  and then the time stamps are converted.  An exception is not caught.
\<close>

definition collect_route ::
  "(string \<Rightarrow> float64 option) \<Rightarrow> (string \<Rightarrow> int option) \<Rightarrow> string \<times> matched_route
     \<Rightarrow> error + collected_route"
where
  "collect_route pf pint entry =
     (case map_err (reread_cell pf) (map snd (snd entry)) of
        Inl e \<Rightarrow> Inl e
      | Inr data \<Rightarrow>
          (case map_err (int_of_cell pint) data of
             Inl e \<Rightarrow> Inl e
           | Inr stamps \<Rightarrow>
               Inr \<lparr>vehicle_id = remove_all ''.csv'' (fst entry),
                    edge_path = map (\<lambda>elem. fst elem) (snd entry),
                    time_stamp = stamps\<rparr>))"

text \<open>
  The result is the list of records that goes into \<open>routes.csv\<close>; the file is opened only
  after the loop, so nothing is written when reading a route file fails.
\<close>

definition create_single_route_file ::
  "(string \<Rightarrow> float64 option) \<Rightarrow> (string \<Rightarrow> int option) \<Rightarrow> matched_route folder
     \<Rightarrow> error + collected_route list"
where
  "create_single_route_file pf pint routes_folder =
     map_err (collect_route pf pint) (csv_files routes_folder)"

subsection \<open>Vocabulary for the statements about the matcher\<close>

text \<open>The acceptance rules as the specification words them.\<close>

definition long_edge_rule :: "geometry \<Rightarrow> segment \<Rightarrow> int \<Rightarrow> bool" where
  "long_edge_rule g s e = (intersection_length g e s > (80 / 100) * segment_length g s)"

definition short_edge_rule :: "geometry \<Rightarrow> segment \<Rightarrow> int \<Rightarrow> bool" where
  "short_edge_rule g s e =
     (edge_length g e < segment_length g s
      \<and> intersection_length g e s > (70 / 100) * edge_length g e)"

text \<open>
  Return-journey suppression: two occurrences of an edge identifier in a route have at
  least \<open>k\<close> entries between them.
\<close>

definition suppressed :: "nat \<Rightarrow> matched_route \<Rightarrow> bool" where
  "suppressed k r =
     (\<forall>j < length r. \<forall>i < j. fst (r ! i) = fst (r ! j) \<longrightarrow> k \<le> j - i - 1)"



text \<open>
  Vocabulary for the statements about the aggregator: the lookup table after one more
  passage over edge \<open>k\<close>, and after the passages listed in \<open>edges\<close>.
\<close>

definition bump :: "int \<Rightarrow> int \<times> road \<Rightarrow> int \<times> road" where
  "bump k kr =
     (fst kr, if fst kr = k then (snd kr)\<lparr>vehicle_co := vehicle_co (snd kr) + 1\<rparr> else snd kr)"

definition add_counts :: "int list \<Rightarrow> int \<times> road \<Rightarrow> int \<times> road" where
  "add_counts edges kr =
     (fst kr, (snd kr)\<lparr>vehicle_co := vehicle_co (snd kr) + int (count_list edges (fst kr))\<rparr>)"

subsection \<open>Concrete inputs\<close>

text \<open>
  A raw trace row has the latitude at position 3, the longitude at position 4 and the time
  at position 9; the other fields are not read.
\<close>

definition raw_row :: "string \<Rightarrow> string \<Rightarrow> string \<Rightarrow> row" where
  "raw_row la lo t = [''51C-00001'', ''0'', la, lo, ''0'', ''0'', ''0'', ''0'', t]"

definition trace_sampled :: "row list" where
  "trace_sampled =
     [raw_row ''0.5'' ''0.0'' ''1'', raw_row ''0.5'' ''0.0'' ''2'',
      raw_row ''0.0'' ''0.0'' ''3'', raw_row ''0.01'' ''0.0'' ''4'']"

definition trace_jitter :: "row list" where
  "trace_jitter =
     [raw_row ''0.0'' ''0.0'' ''1'', raw_row ''0.0'' ''0.0'' ''2'',
      raw_row ''0.001'' ''0.0'' ''3'']"

definition trace_parked :: "row list" where
  "trace_parked =
     [raw_row ''21.0285'' ''105.8542'' ''1'', raw_row ''21.0285'' ''105.8542'' ''2'',
      raw_row ''21.0285'' ''105.8542'' ''3'', raw_row ''21.0285'' ''105.8542'' ''4'']"

text \<open>
  A trace whose third row is 0.001 further north in decimal notation; the floating-point
  difference of the two latitudes is smaller than the float \<open>0.001\<close>.
\<close>

definition trace_rounded :: "row list" where
  "trace_rounded =
     [raw_row ''10.0'' ''105.0'' ''1'', raw_row ''10.0'' ''105.0'' ''2'',
      raw_row ''10.001'' ''105.0'' ''3'']"

text \<open>
  Road networks for the examples, given by what the geometry library would answer; a
  string as a coordinate is refused.  \<open>whole\<close> is the whole part of a finite float.
  In \<open>ring_geometry\<close> the only candidate of a segment is the edge numbered by the whole part
  of the first coordinate of its first point, modulo 6, and every candidate covers the
  segment.  In \<open>ladder_geometry\<close> the candidates of a segment are the edge numbered by that
  whole part and the next one, and both cover the segment.  In \<open>corridor_geometry\<close> every
  segment has length 10 and the candidates 1, 2 and 3: edge 1 runs along it for a length
  of 9, edge 2 has length 4 of which 3 are in the buffer, edge 3 has length 20 of which 5
  are in the buffer.
\<close>

definition whole :: "float64 \<Rightarrow> int" where
  "whole x = (case x of Finite q \<Rightarrow> \<lfloor>q\<rfloor> | _ \<Rightarrow> 0)"

definition ring_geometry :: geometry where
  "ring_geometry =
     \<lparr>rtree_intersection = (\<lambda>s. [whole (fst (fst s)) mod 6]),
      intersection_length = (\<lambda>e s. 1),
      edge_length = (\<lambda>e. 2),
      segment_length = (\<lambda>s. 1),
      text_coordinate = (\<lambda>s. Inl TypeError)\<rparr>"


definition corridor_geometry :: geometry where
  "corridor_geometry =
     \<lparr>rtree_intersection = (\<lambda>s. [1, 2, 3]),
      intersection_length = (\<lambda>e s. if e = 1 then 9 else if e = 2 then 3 else 5),
      edge_length = (\<lambda>e. if e = 1 then 12 else if e = 2 then 4 else 20),
      segment_length = (\<lambda>s. 10),
      text_coordinate = (\<lambda>s. Inl TypeError)\<rparr>"

text \<open>A row of a reduced trace, no field of it in quotes.\<close>

definition plain_row :: "string list \<Rightarrow> csv_field list" where
  "plain_row texts = map Unquoted texts"

definition trace_ring :: "csv_field list list" where
  "trace_ring =
     [plain_row [''0.5'', ''21.0'', ''100''], plain_row [''1.5'', ''21.0'', ''200''],
      plain_row [''2.5'', ''21.0'', ''300''], plain_row [''3.5'', ''21.0'', ''400''],
      plain_row [''4.5'', ''21.0'', ''500''], plain_row [''5.5'', ''21.0'', ''600''],
      plain_row [''6.5'', ''21.0'', ''700''], plain_row [''7.5'', ''21.0'', ''800'']]"



text \<open>A batch of one trace whose rows have no time.\<close>

definition batch_without_time :: "csv_field list list folder" where
  "batch_without_time =
     [(''1.csv'', [plain_row [''0.5'', ''21.0'', []], plain_row [''1.5'', ''21.0'', []]])]"

text \<open>A network of two roads and three route files; the second names an edge 9 that is not a road.\<close>

definition two_roads :: "road list" where
  "two_roads = [\<lparr>g_id = 1, vehicle_co = 0\<rparr>, \<lparr>g_id = 2, vehicle_co = 0\<rparr>]"

definition routes_clean :: "route folder" where
  "routes_clean =
     [(''a.csv'', [(1, 100), (2, 200)]), (''b.csv'', []), (''c.csv'', [(1, 100)])]"

definition routes_dangling :: "route folder" where
  "routes_dangling =
     [(''a.csv'', [(1, 100), (2, 200)]), (''b.csv'', [(9, 100)]), (''c.csv'', [(1, 100)])]"

section \<open>Properties of the Trace Reducer\<close>

lemma map_err_select_columns:
  "map_err select_columns rows =
     (if \<forall>r\<in>set rows. 9 \<le> length r then Inr (map raw_columns rows) else Inl IndexError)"
  by (induction rows) (auto simp: select_columns_def raw_columns_def)

lemma abs_diff_Inr:
  "abs_diff pf a b = Inr d \<longleftrightarrow> (\<exists>x y. pf a = Some x \<and> pf b = Some y \<and> d = f_abs (f_sub x y))"
  by (auto simp: abs_diff_def split: option.splits)

lemma reduse_step_cases:
  assumes "reduse_step pf dm (p, c) = Inr dm'"
  shows "parses pf p \<and> parses pf c \<and>
         dm' = (if displaced pf MIN_LAT_MOV MIN_LON_MOV p c \<and>
                   (dm = [] \<or> displaced pf MIN_LAT_SAMPLE MIN_LON_SAMPLE (last dm) c)
                then dm @ [c] else dm)"
proof -
  obtain dlat where dlat: "abs_diff pf (fst p) (fst c) = Inr dlat"
    using assms by (cases "abs_diff pf (fst p) (fst c)") auto
  obtain dlon where dlon: "abs_diff pf (fst (snd p)) (fst (snd c)) = Inr dlon"
    using assms dlat by (cases "abs_diff pf (fst (snd p)) (fst (snd c))") auto
  have pc: "parses pf p \<and> parses pf c"
    using dlat dlon by (auto simp: parses_def abs_diff_Inr)
  have mov: "displaced pf MIN_LAT_MOV MIN_LON_MOV p c
               \<longleftrightarrow> (f_ge dlat MIN_LAT_MOV \<or> f_ge dlon MIN_LON_MOV)"
    using dlat dlon by (simp add: displaced_def)
  show ?thesis
  proof (cases "displaced pf MIN_LAT_MOV MIN_LON_MOV p c")
    case False
    then show ?thesis using assms dlat dlon mov pc by auto
  next
    case True
    show ?thesis
    proof (cases "dm = []")
      case e: True
      then show ?thesis using assms dlat dlon mov pc True by auto
    next
      case ne: False
      obtain slat where slat: "abs_diff pf (fst (last dm)) (fst c) = Inr slat"
        using assms dlat dlon mov True ne
        by (cases "abs_diff pf (fst (last dm)) (fst c)") auto
      obtain slon where slon: "abs_diff pf (fst (snd (last dm))) (fst (snd c)) = Inr slon"
        using assms dlat dlon mov True ne slat
        by (cases "abs_diff pf (fst (snd (last dm))) (fst (snd c))") auto
      have "displaced pf MIN_LAT_SAMPLE MIN_LON_SAMPLE (last dm) c
              \<longleftrightarrow> (f_ge slat MIN_LAT_SAMPLE \<or> f_ge slon MIN_LON_SAMPLE)"
        using slat slon by (simp add: displaced_def)
      then show ?thesis using assms dlat dlon mov True ne slat slon pc by auto
    qed
  qed
qed

lemma reduse_step_total:
  assumes "parses pf p" "parses pf c" "\<forall>q\<in>set dm. parses pf q"
  shows "reduse_step pf dm (p, c) =
           Inr (if displaced pf MIN_LAT_MOV MIN_LON_MOV p c \<and>
                   (dm = [] \<or> displaced pf MIN_LAT_SAMPLE MIN_LON_SAMPLE (last dm) c)
                then dm @ [c] else dm)"
proof -
  have l: "dm \<noteq> [] \<Longrightarrow> parses pf (last dm)" using assms(3) by simp
  obtain x y where xy: "pf (fst p) = Some x" "pf (fst (snd p)) = Some y"
    using assms(1) by (auto simp: parses_def)
  obtain u v where uv: "pf (fst c) = Some u" "pf (fst (snd c)) = Some v"
    using assms(2) by (auto simp: parses_def)
  show ?thesis
  proof (cases "dm = []")
    case True
    then show ?thesis using xy uv by (simp add: displaced_def abs_diff_def)
  next
    case False
    then obtain a b where ab: "pf (fst (last dm)) = Some a" "pf (fst (snd (last dm))) = Some b"
      using l by (auto simp: parses_def)
    show ?thesis using False xy uv ab by (simp add: displaced_def abs_diff_def)
  qed
qed

lemma reduse_loop_append:
  "reduse_loop pf dm (ps @ qs) =
     (case reduse_loop pf dm ps of Inl e \<Rightarrow> Inl e | Inr acc \<Rightarrow> reduse_loop pf acc qs)"
  by (induction ps arbitrary: dm) (auto split: sum.splits)

lemma reduse_loop_parses:
  assumes "reduse_loop pf dm ps = Inr out" "\<forall>q\<in>set dm. parses pf q"
  shows "\<forall>q\<in>set out. parses pf q"
  using assms
proof (induction ps arbitrary: dm)
  case Nil
  then show ?case by simp
next
  case (Cons pc ps)
  obtain p c where pc: "pc = (p, c)" by (cases pc)
  from Cons.prems(1) obtain dm' where s: "reduse_step pf dm (p, c) = Inr dm'"
    and l: "reduse_loop pf dm' ps = Inr out"
    by (auto simp: pc split: sum.splits)
  from reduse_step_cases[OF s] have "parses pf c" "dm' = dm \<or> dm' = dm @ [c]"
    by (auto split: if_splits)
  then have "\<forall>q\<in>set dm'. parses pf q" using Cons.prems(2) by auto
  from Cons.IH[OF l this] show ?case .
qed

lemma reduse_loop_subseq:
  assumes "reduse_loop pf dm ps = Inr out"
  shows "\<exists>ys. out = dm @ ys \<and> subseq ys (map snd ps)"
  using assms
proof (induction ps arbitrary: dm)
  case Nil
  then show ?case by simp
next
  case (Cons pc ps)
  obtain p c where pc: "pc = (p, c)" by (cases pc)
  from Cons.prems obtain dm' where s: "reduse_step pf dm (p, c) = Inr dm'"
    and l: "reduse_loop pf dm' ps = Inr out"
    by (auto simp: pc split: sum.splits)
  from Cons.IH[OF l] obtain ys where ys: "out = dm' @ ys" "subseq ys (map snd ps)" by blast
  from reduse_step_cases[OF s] have "dm' = dm \<or> dm' = dm @ [c]"
    by (auto split: if_splits)
  then show ?case
  proof
    assume "dm' = dm"
    then have "out = dm @ ys \<and> subseq ys (map snd (pc # ps))" using ys by (simp add: list_emb_Cons)
    then show ?thesis by blast
  next
    assume "dm' = dm @ [c]"
    then have "out = dm @ (c # ys) \<and> subseq (c # ys) (map snd (pc # ps))"
      using ys by (simp add: pc)
    then show ?thesis by blast
  qed
qed

lemma reduse_loop_total:
  assumes "\<forall>(p, c)\<in>set ps. parses pf p \<and> parses pf c" "\<forall>q\<in>set dm. parses pf q"
  shows "\<exists>out. reduse_loop pf dm ps = Inr out"
  using assms
proof (induction ps arbitrary: dm)
  case Nil
  then show ?case by simp
next
  case (Cons pc ps)
  obtain p c where pc: "pc = (p, c)" by (cases pc)
  have p: "parses pf p" "parses pf c" using Cons.prems(1) by (auto simp: pc)
  from reduse_step_total[OF p Cons.prems(2)] obtain dm'
    where s: "reduse_step pf dm (p, c) = Inr dm'" and d: "dm' = dm \<or> dm' = dm @ [c]"
    by (auto split: if_splits)
  have "\<forall>q\<in>set dm'. parses pf q" using d p Cons.prems(2) by auto
  moreover have "\<forall>(p, c)\<in>set ps. parses pf p \<and> parses pf c" using Cons.prems(1) by simp
  ultimately obtain out where "reduse_loop pf dm' ps = Inr out" using Cons.IH by blast
  then show ?case using s by (simp add: pc)
qed

lemma reduse_loop_nonempty:
  assumes "reduse_loop pf dm ps = Inr out"
  shows "out \<noteq> [] \<longleftrightarrow> dm \<noteq> [] \<or> (\<exists>(p, c)\<in>set ps. displaced pf MIN_LAT_MOV MIN_LON_MOV p c)"
  using assms
proof (induction ps arbitrary: dm)
  case Nil
  then show ?case by simp
next
  case (Cons pc ps)
  obtain p c where pc: "pc = (p, c)" by (cases pc)
  from Cons.prems obtain dm' where s: "reduse_step pf dm (p, c) = Inr dm'"
    and l: "reduse_loop pf dm' ps = Inr out"
    by (auto simp: pc split: sum.splits)
  from reduse_step_cases[OF s]
  have "dm' \<noteq> [] \<longleftrightarrow> dm \<noteq> [] \<or> displaced pf MIN_LAT_MOV MIN_LON_MOV p c"
    by (auto split: if_splits)
  then show ?case using Cons.IH[OF l] by (auto simp: pc)
qed

lemma length_consecutive_pairs: "length (consecutive_pairs data) = length data - 2"
  by (simp add: consecutive_pairs_def)

lemma map_snd_consecutive_pairs: "map snd (consecutive_pairs data) = drop 2 data"
proof -
  have "length (butlast (tl data)) = length (drop 2 data)" by simp
  then show ?thesis unfolding consecutive_pairs_def by (rule map_snd_zip)
qed

lemma consecutive_pairs_short: "length data < 3 \<Longrightarrow> consecutive_pairs data = []"
  using length_consecutive_pairs[of data] by simp

lemma consecutive_pairs_snoc:
  assumes "2 \<le> length data"
  shows "consecutive_pairs (data @ [c]) = consecutive_pairs data @ [(last data, c)]"
proof -
  from assms obtain a b rest where d: "data = a # b # rest"
    by (cases data; cases "tl data") auto
  have "zip (butlast (b # rest @ [c])) (rest @ [c]) = zip (butlast (b # rest)) rest @ [(last (b # rest), c)]"
  proof (induction rest arbitrary: b)
    case Nil
    then show ?case by simp
  next
    case (Cons r rest)
    from Cons[of r] show ?case by simp
  qed
  then show ?thesis by (simp add: consecutive_pairs_def d)
qed

lemma consecutive_pairs_nth:
  assumes "i < length data - 2"
  shows "consecutive_pairs data ! i = (data ! (i + 1), data ! (i + 2))"
  using assms by (simp add: consecutive_pairs_def nth_butlast nth_tl)

lemma consecutive_pairs_in_tl:
  assumes "(p, c) \<in> set (consecutive_pairs data)"
  shows "p \<in> set (tl data) \<and> c \<in> set (tl data)"
proof -
  have "p \<in> set (butlast (tl data))" "c \<in> set (drop 2 data)"
    using assms unfolding consecutive_pairs_def by (auto dest: set_zip_leftD set_zip_rightD)
  moreover have "drop 2 data = tl (tl data)" by (simp add: drop_Suc numeral_2_eq_2 tl_drop)
  ultimately show ?thesis by (auto dest: in_set_butlastD list.set_sel(2)[rotated])
qed

lemma thresholds:
  "MIN_LAT_MOV = Finite (1152921504606847 / 1152921504606846976)"
  "MIN_LON_MOV = Finite (1152921504606847 / 1152921504606846976)"
  "MIN_LAT_SAMPLE = Finite (5764607523034235 / 576460752303423488)"
  "MIN_LON_SAMPLE = Finite (5764607523034235 / 576460752303423488)"
  by code_simp+

lemma sample_implies_moving:
  "f_ge d MIN_LAT_SAMPLE \<Longrightarrow> f_ge d MIN_LAT_MOV"
  "f_ge d MIN_LON_SAMPLE \<Longrightarrow> f_ge d MIN_LON_MOV"
  by (cases d; simp add: thresholds)+

lemma reduse_step_resample:
  assumes "displaced pf MIN_LAT_SAMPLE MIN_LON_SAMPLE p c" "dm = [] \<or> last dm = p"
  shows "reduse_step pf dm (p, c) = Inr (dm @ [c])"
proof -
  from assms(1) obtain dlat dlon where d: "abs_diff pf (fst p) (fst c) = Inr dlat"
    "abs_diff pf (fst (snd p)) (fst (snd c)) = Inr dlon"
    "f_ge dlat MIN_LAT_SAMPLE \<or> f_ge dlon MIN_LON_SAMPLE"
    by (auto simp: displaced_def split: sum.splits)
  then have "f_ge dlat MIN_LAT_MOV \<or> f_ge dlon MIN_LON_MOV"
    by (auto dest: sample_implies_moving)
  then show ?thesis using d assms(2) by auto
qed

lemma reduse_loop_successively:
  assumes "reduse_loop pf dm ps = Inr out"
    "successively (displaced pf MIN_LAT_SAMPLE MIN_LON_SAMPLE) dm"
  shows "successively (displaced pf MIN_LAT_SAMPLE MIN_LON_SAMPLE) out"
  using assms
proof (induction ps arbitrary: dm)
  case Nil
  then show ?case by simp
next
  case (Cons pc ps)
  obtain p c where pc: "pc = (p, c)" by (cases pc)
  from Cons.prems(1) obtain dm' where s: "reduse_step pf dm (p, c) = Inr dm'"
    and l: "reduse_loop pf dm' ps = Inr out"
    by (auto simp: pc split: sum.splits)
  from reduse_step_cases[OF s] Cons.prems(2)
  have "successively (displaced pf MIN_LAT_SAMPLE MIN_LON_SAMPLE) dm'"
    by (auto simp: successively_append_iff split: if_splits)
  from Cons.IH[OF l this] show ?case .
qed

lemma reduse_loop_rerun:
  assumes "successively (displaced pf MIN_LAT_SAMPLE MIN_LON_SAMPLE) (x # xs)"
    "acc = [] \<or> last acc = x"
  shows "reduse_loop pf acc (zip (x # xs) xs) = Inr (acc @ xs)"
  using assms
proof (induction xs arbitrary: x acc)
  case Nil
  then show ?case by simp
next
  case (Cons y ys)
  have s: "reduse_step pf acc (x, y) = Inr (acc @ [y])"
    using Cons.prems by (intro reduse_step_resample) auto
  have "reduse_loop pf (acc @ [y]) (zip (y # ys) ys) = Inr ((acc @ [y]) @ ys)"
    using Cons.prems(1) by (intro Cons.IH) auto
  then show ?case using s by simp
qed

lemma zip_butlast_Cons: "zip (butlast (x # xs)) xs = zip (x # xs) xs"
  by (induction xs arbitrary: x) auto

lemma data_moving_of_rerun:
  assumes "data_moving_of pf data = Inr dm"
  shows "data_moving_of pf dm = Inr (drop 2 dm)"
proof -
  have suc: "successively (displaced pf MIN_LAT_SAMPLE MIN_LON_SAMPLE) dm"
    using assms reduse_loop_successively[of pf "[]" "consecutive_pairs data" dm]
    by (simp add: data_moving_of_def)
  show ?thesis
  proof (cases dm)
    case Nil
    then show ?thesis by (simp add: data_moving_of_def consecutive_pairs_def)
  next
    case (Cons a rest)
    show ?thesis
    proof (cases rest)
      case Nil
      then show ?thesis using Cons by (simp add: data_moving_of_def consecutive_pairs_def)
    next
      case c2: (Cons x xs)
      have "successively (displaced pf MIN_LAT_SAMPLE MIN_LON_SAMPLE) (x # xs)"
        using suc by (simp add: Cons c2)
      then have "reduse_loop pf [] (zip (x # xs) xs) = Inr ([] @ xs)"
        by (intro reduse_loop_rerun) auto
      then show ?thesis
        by (simp add: data_moving_of_def consecutive_pairs_def Cons c2 zip_butlast_Cons
            del: butlast.simps zip_Cons_Cons)
    qed
  qed
qed

lemma reduse_file_Inr:
  "reduse_file pf rows = Inr out \<longleftrightarrow>
     (\<forall>r\<in>set rows. 9 \<le> length r) \<and>
     (\<exists>dm. data_moving_of pf (map raw_columns rows) = Inr dm \<and> out = map written_row dm)"
  by (auto simp: reduse_file_def map_err_select_columns split: sum.splits)

lemma written_raw: "written_row (raw_columns r) = [r ! 2, r ! 3, r ! 8]"
  by (simp add: written_row_def raw_columns_def)

lemma data_moving_of_short: "length data < 3 \<Longrightarrow> data_moving_of pf data = Inr []"
  by (simp add: data_moving_of_def consecutive_pairs_short)

lemma data_moving_of_total:
  assumes "\<forall>p\<in>set (tl data). parses pf p"
  shows "\<exists>dm. data_moving_of pf data = Inr dm"
  unfolding data_moving_of_def
proof (rule reduse_loop_total)
  show "\<forall>(p, c)\<in>set (consecutive_pairs data). parses pf p \<and> parses pf c"
    using assms consecutive_pairs_in_tl[of _ _ data] by blast
  show "\<forall>q\<in>set []. parses pf q" by simp
qed

lemma data_moving_of_subseq:
  assumes "data_moving_of pf data = Inr dm"
  shows "subseq dm (drop 2 data)"
  using reduse_loop_subseq[of pf "[]" "consecutive_pairs data" dm] assms
  by (simp add: data_moving_of_def map_snd_consecutive_pairs)

text \<open>
  Claim C10.  For a raw trace file whose rows all have the nine columns the module asks
  for: whatever \<open>reduse_dataset\<close> writes is a subsequence, in the original order, of the
  rows from the third one on, each reduced to its latitude, longitude and time fields as
  they were read; a file with fewer than three rows gives an empty output; and an output
  is produced whenever latitude and longitude of every row but the first are numbers.
\<close>

theorem reduse_file_subsequence:
  assumes "\<forall>r\<in>set rows. 9 \<le> length r"
  shows "(\<forall>out. reduse_file pf rows = Inr out \<longrightarrow>
            subseq out (map (\<lambda>r. [r ! 2, r ! 3, r ! 8]) (drop 2 rows)))
       \<and> (length rows < 3 \<longrightarrow> reduse_file pf rows = Inr [])
       \<and> ((\<forall>r\<in>set (tl rows). pf (r ! 2) \<noteq> None \<and> pf (r ! 3) \<noteq> None) \<longrightarrow>
            (\<exists>out. reduse_file pf rows = Inr out))"
proof (intro conjI allI impI)
  fix out assume "reduse_file pf rows = Inr out"
  then obtain dm where dm: "data_moving_of pf (map raw_columns rows) = Inr dm"
    and out: "out = map written_row dm"
    by (auto simp: reduse_file_Inr)
  from data_moving_of_subseq[OF dm] have "subseq dm (map raw_columns (drop 2 rows))"
    by (simp add: drop_map)
  then have "subseq (map written_row dm) (map written_row (map raw_columns (drop 2 rows)))"
    by (rule subseq_map)
  then show "subseq out (map (\<lambda>r. [r ! 2, r ! 3, r ! 8]) (drop 2 rows))"
    by (simp add: out written_raw comp_def)
next
  assume "length rows < 3"
  then have "data_moving_of pf (map raw_columns rows) = Inr []"
    by (intro data_moving_of_short) simp
  then show "reduse_file pf rows = Inr []"
    using assms by (simp add: reduse_file_Inr)
next
  assume a: "\<forall>r\<in>set (tl rows). pf (r ! 2) \<noteq> None \<and> pf (r ! 3) \<noteq> None"
  have "\<forall>p\<in>set (tl (map raw_columns rows)). parses pf p"
    using a by (auto simp: map_tl[symmetric] parses_def raw_columns_def)
  from data_moving_of_total[OF this] obtain dm
    where "data_moving_of pf (map raw_columns rows) = Inr dm" by blast
  then show "\<exists>out. reduse_file pf rows = Inr out"
    using assms by (simp add: reduse_file_Inr)
qed

text \<open>Claim C10 at a trace of four rows and at its first two rows.\<close>

theorem reduse_file_subsequence_witness:
  "list_all (\<lambda>r. 9 \<le> length r) trace_sampled
   \<and> reduse_file float_py trace_sampled = Inr [[''0.0'', ''0.0'', ''3''], [''0.01'', ''0.0'', ''4'']]
   \<and> subseq [[''0.0'', ''0.0'', ''3''], [''0.01'', ''0.0'', ''4'']]
        (map (\<lambda>r. [r ! 2, r ! 3, r ! 8]) (drop 2 trace_sampled))
   \<and> list_all (\<lambda>r. 9 \<le> length r) (take 2 trace_sampled)
   \<and> length (take 2 trace_sampled) < 3
   \<and> reduse_file float_py (take 2 trace_sampled) = Inr []"
proof -
  have h: "\<forall>r\<in>set trace_sampled. 9 \<le> length r"
    by (simp add: trace_sampled_def raw_row_def)
  have h2: "\<forall>r\<in>set (take 2 trace_sampled). 9 \<le> length r"
    by (simp add: trace_sampled_def raw_row_def)
  have l2: "length (take 2 trace_sampled) < 3"
    by (simp add: trace_sampled_def)
  have e: "reduse_file float_py trace_sampled
             = Inr [[''0.0'', ''0.0'', ''3''], [''0.01'', ''0.0'', ''4'']]"
    by code_simp
  have "subseq [[''0.0'', ''0.0'', ''3''], [''0.01'', ''0.0'', ''4'']]
        (map (\<lambda>r. [r ! 2, r ! 3, r ! 8]) (drop 2 trace_sampled))"
    using reduse_file_subsequence [OF h, of float_py] e by blast
  moreover have "reduse_file float_py (take 2 trace_sampled) = Inr []"
    using reduse_file_subsequence [OF h2, of float_py] l2 by blast
  ultimately show ?thesis
    using h h2 l2 e by (simp add: list_all_iff)
qed

lemma consecutive_pairs_ex:
  "(\<exists>(p, c)\<in>set (consecutive_pairs data). P p c) \<longleftrightarrow>
   (\<exists>i. 2 \<le> i \<and> i < length data \<and> P (data ! (i - 1)) (data ! i))"
proof
  assume "\<exists>(p, c)\<in>set (consecutive_pairs data). P p c"
  then obtain p c where pc: "(p, c) \<in> set (consecutive_pairs data)" "P p c" by blast
  then obtain k where k: "k < length data - 2" "consecutive_pairs data ! k = (p, c)"
    by (auto simp: in_set_conv_nth length_consecutive_pairs)
  then have "p = data ! (k + 1)" "c = data ! (k + 2)"
    by (simp_all add: consecutive_pairs_nth)
  then have "2 \<le> k + 2 \<and> k + 2 < length data \<and> P (data ! (k + 2 - 1)) (data ! (k + 2))"
    using k(1) pc(2) by simp
  then show "\<exists>i. 2 \<le> i \<and> i < length data \<and> P (data ! (i - 1)) (data ! i)" by blast
next
  assume "\<exists>i. 2 \<le> i \<and> i < length data \<and> P (data ! (i - 1)) (data ! i)"
  then obtain i where i: "2 \<le> i" "i < length data" "P (data ! (i - 1)) (data ! i)" by blast
  have k: "i - 2 < length data - 2" using i by arith
  have "consecutive_pairs data ! (i - 2) = (data ! (i - 2 + 1), data ! (i - 2 + 2))"
    using k by (rule consecutive_pairs_nth)
  moreover have "i - 2 + 1 = i - 1" "i - 2 + 2 = i" using i(1) by arith+
  ultimately have "consecutive_pairs data ! (i - 2) = (data ! (i - 1), data ! i)" by simp
  moreover have "consecutive_pairs data ! (i - 2) \<in> set (consecutive_pairs data)"
    using k by (simp add: length_consecutive_pairs)
  ultimately have "(data ! (i - 1), data ! i) \<in> set (consecutive_pairs data)" by simp
  then show "\<exists>(p, c)\<in>set (consecutive_pairs data). P p c" using i(3) by blast
qed

text \<open>
  Claim C7, as amended.  The claim says that a raw trace of at least three points has a
  non-empty reduced trace; a parked vehicle refutes it (see the example that follows the
  theorem).  What holds: a trace of fewer than three rows reduces to the empty trace, and
  the reduced trace is non-empty exactly when, for some row from the third one on, the
  absolute difference to the row just before it, as the floating-point subtraction
  \<open>abs(float(a) - float(b))\<close> gives it, is at least the float \<open>0.001\<close> in latitude or
  longitude.
\<close>

theorem reduse_file_nonempty_iff:
  assumes "reduse_file pf rows = Inr out"
  shows "(length rows < 3 \<longrightarrow> out = [])
       \<and> (out \<noteq> [] \<longleftrightarrow>
            (\<exists>i. 2 \<le> i \<and> i < length rows \<and>
                 displaced pf MIN_LAT_MOV MIN_LON_MOV
                   (raw_columns (rows ! (i - 1))) (raw_columns (rows ! i))))"
proof -
  from assms obtain dm where dm: "data_moving_of pf (map raw_columns rows) = Inr dm"
    and out: "out = map written_row dm"
    by (auto simp: reduse_file_Inr)
  have short: "length rows < 3 \<longrightarrow> out = []"
    using dm data_moving_of_short[of "map raw_columns rows" pf] by (auto simp: out)
  have "dm \<noteq> [] \<longleftrightarrow>
          (\<exists>(p, c)\<in>set (consecutive_pairs (map raw_columns rows)).
              displaced pf MIN_LAT_MOV MIN_LON_MOV p c)"
    using reduse_loop_nonempty[of pf "[]" "consecutive_pairs (map raw_columns rows)" dm] dm
    by (simp add: data_moving_of_def)
  also have "\<dots> \<longleftrightarrow> (\<exists>i. 2 \<le> i \<and> i < length rows \<and>
                 displaced pf MIN_LAT_MOV MIN_LON_MOV
                   (raw_columns (rows ! (i - 1))) (raw_columns (rows ! i)))"
  proof -
    have "\<And>i. 2 \<le> i \<and> i < length rows \<Longrightarrow>
        map raw_columns rows ! (i - 1) = raw_columns (rows ! (i - 1))
        \<and> map raw_columns rows ! i = raw_columns (rows ! i)"
      by (simp add: nth_map less_imp_diff_less)
    then show ?thesis unfolding consecutive_pairs_ex by auto
  qed
  finally show ?thesis using short by (simp add: out)
qed

text \<open>
  Claim C7 fails as stated: four rows of a vehicle that does not move reduce to the empty
  trace.
\<close>

theorem reduse_file_parked_counterexample:
  "3 \<le> length trace_parked \<and> reduse_file float_py trace_parked = Inr []"
  by code_simp

text \<open>
  The amended claim C7 at a trace of three rows whose third row moved, and at a trace whose
  third row is 0.001 further north in decimal notation, which reduces to the empty trace:
  the floating-point difference of 10.0 and 10.001 is smaller than the float 0.001.
\<close>

theorem reduse_file_nonempty_iff_witness:
  "reduse_file float_py trace_jitter = Inr [[''0.001'', ''0.0'', ''3'']]
   \<and> (\<exists>i. 2 \<le> i \<and> i < length trace_jitter \<and>
          displaced float_py MIN_LAT_MOV MIN_LON_MOV
            (raw_columns (trace_jitter ! (i - 1))) (raw_columns (trace_jitter ! i)))
   \<and> reduse_file float_py trace_rounded = Inr []
   \<and> \<not> (\<exists>i. 2 \<le> i \<and> i < length trace_rounded \<and>
          displaced float_py MIN_LAT_MOV MIN_LON_MOV
            (raw_columns (trace_rounded ! (i - 1))) (raw_columns (trace_rounded ! i)))
   \<and> abs_diff float_py ''10.0'' ''10.001'' = Inr (Finite (562949953421 / 562949953421312))
   \<and> \<not> f_ge (Finite (562949953421 / 562949953421312)) MIN_LAT_MOV"
proof -
  have e: "reduse_file float_py trace_jitter = Inr [[''0.001'', ''0.0'', ''3'']]"
    by code_simp
  have r: "reduse_file float_py trace_rounded = Inr []"
    by code_simp
  have d: "abs_diff float_py ''10.0'' ''10.001'' = Inr (Finite (562949953421 / 562949953421312))
   \<and> \<not> f_ge (Finite (562949953421 / 562949953421312)) MIN_LAT_MOV"
    by code_simp
  show ?thesis
    using reduse_file_nonempty_iff [OF e] reduse_file_nonempty_iff [OF r] e r d by simp
qed

text \<open>
  Claim C5, as amended.  The claim words both thresholds as strict (``exceeds''); the code
  compares with \<open>\<ge>\<close>, and what it compares is the difference that the floating-point
  subtraction \<open>abs(float(a) - float(b))\<close> gives, with the floats \<open>0.001\<close> and \<open>0.01\<close> (see the
  examples that follow the theorem).  What holds, row by row: nothing is emitted for the
  first two rows; a further row \<open>current\<close> is emitted exactly when its floating-point
  difference from the row just before it is at least the stillness threshold in latitude
  or longitude and, unless nothing has been emitted yet, its floating-point difference
  from the last emitted row is at least the sampling threshold in latitude or longitude.
\<close>

theorem data_moving_two_stage:
  "(length data \<le> 2 \<longrightarrow> data_moving_of pf data = Inr [])
 \<and> (2 \<le> length data \<and> data_moving_of pf data = Inr dm
      \<and> parses pf (last data) \<and> parses pf current \<longrightarrow>
    data_moving_of pf (data @ [current]) =
      Inr (if displaced pf MIN_LAT_MOV MIN_LON_MOV (last data) current
              \<and> (dm = [] \<or> displaced pf MIN_LAT_SAMPLE MIN_LON_SAMPLE (last dm) current)
           then dm @ [current] else dm))"
proof (intro conjI impI)
  assume "length data \<le> 2"
  then show "data_moving_of pf data = Inr []" by (intro data_moving_of_short) simp
next
  assume a: "2 \<le> length data \<and> data_moving_of pf data = Inr dm
      \<and> parses pf (last data) \<and> parses pf current"
  then have l: "reduse_loop pf [] (consecutive_pairs data) = Inr dm"
    by (simp add: data_moving_of_def)
  have "\<forall>q\<in>set dm. parses pf q"
    using reduse_loop_parses[OF l] by simp
  then have "reduse_step pf dm (last data, current) =
      Inr (if displaced pf MIN_LAT_MOV MIN_LON_MOV (last data) current
              \<and> (dm = [] \<or> displaced pf MIN_LAT_SAMPLE MIN_LON_SAMPLE (last dm) current)
           then dm @ [current] else dm)"
    using a by (intro reduse_step_total) auto
  then show "data_moving_of pf (data @ [current]) =
      Inr (if displaced pf MIN_LAT_MOV MIN_LON_MOV (last data) current
              \<and> (dm = [] \<or> displaced pf MIN_LAT_SAMPLE MIN_LON_SAMPLE (last dm) current)
           then dm @ [current] else dm)"
    using a l by (simp add: data_moving_of_def consecutive_pairs_snoc reduse_loop_append)
qed

text \<open>
  Claim C5 fails as stated.  In \<open>trace_jitter\<close> the third row is emitted although its
  latitude difference from the second row is the float 0.001 itself and its longitude
  difference is 0: neither exceeds the stillness threshold.  In \<open>trace_sampled\<close> the fourth
  row is emitted although its latitude difference from the last emitted row is the float
  0.01 itself and its longitude difference is 0: neither exceeds the sampling threshold.
\<close>

theorem data_moving_threshold_counterexample:
  "reduse_file float_py trace_jitter = Inr [[''0.001'', ''0.0'', ''3'']]
   \<and> abs_diff float_py ''0.0'' ''0.001'' = Inr MIN_LAT_MOV
   \<and> abs_diff float_py ''0.0'' ''0.0'' = Inr (Finite 0)
   \<and> \<not> f_gt MIN_LAT_MOV MIN_LAT_MOV \<and> \<not> f_gt (Finite 0) MIN_LON_MOV
   \<and> reduse_file float_py trace_sampled
        = Inr [[''0.0'', ''0.0'', ''3''], [''0.01'', ''0.0'', ''4'']]
   \<and> abs_diff float_py ''0.0'' ''0.01'' = Inr MIN_LAT_SAMPLE
   \<and> \<not> f_gt MIN_LAT_SAMPLE MIN_LAT_SAMPLE \<and> \<not> f_gt (Finite 0) MIN_LON_SAMPLE"
  by code_simp

text \<open>
  The amended claim C5 at the fourth row of \<open>trace_sampled\<close>, which is emitted, and at the
  third row of \<open>trace_rounded\<close>, which is not: the floating-point difference of 10.0 and
  10.001 is smaller than the float 0.001.
\<close>

theorem data_moving_two_stage_witness:
  "2 \<le> length (map raw_columns (take 3 trace_sampled))
   \<and> data_moving_of float_py (map raw_columns (take 3 trace_sampled)) = Inr [(''0.0'', ''0.0'', ''3'')]
   \<and> parses float_py (last (map raw_columns (take 3 trace_sampled)))
   \<and> parses float_py (''0.01'', ''0.0'', ''4'')
   \<and> data_moving_of float_py (map raw_columns (take 3 trace_sampled) @ [(''0.01'', ''0.0'', ''4'')])
       = Inr [(''0.0'', ''0.0'', ''3''), (''0.01'', ''0.0'', ''4'')]
   \<and> data_moving_of float_py (map raw_columns (take 2 trace_rounded)) = Inr []
   \<and> \<not> displaced float_py MIN_LAT_MOV MIN_LON_MOV
          (last (map raw_columns (take 2 trace_rounded))) (''10.001'', ''105.0'', ''3'')
   \<and> data_moving_of float_py (map raw_columns (take 2 trace_rounded) @ [(''10.001'', ''105.0'', ''3'')])
       = Inr []"
proof -
  have a: "2 \<le> length (map raw_columns (take 3 trace_sampled))
      \<and> data_moving_of float_py (map raw_columns (take 3 trace_sampled)) = Inr [(''0.0'', ''0.0'', ''3'')]
      \<and> parses float_py (last (map raw_columns (take 3 trace_sampled)))
      \<and> parses float_py (''0.01'', ''0.0'', ''4'')"
    by code_simp
  have d: "displaced float_py MIN_LAT_MOV MIN_LON_MOV
             (last (map raw_columns (take 3 trace_sampled))) (''0.01'', ''0.0'', ''4'')
         \<and> displaced float_py MIN_LAT_SAMPLE MIN_LON_SAMPLE
             (last [(''0.0'', ''0.0'', ''3'')]) (''0.01'', ''0.0'', ''4'')"
    by code_simp
  have b: "2 \<le> length (map raw_columns (take 2 trace_rounded))
      \<and> data_moving_of float_py (map raw_columns (take 2 trace_rounded)) = Inr []
      \<and> parses float_py (last (map raw_columns (take 2 trace_rounded)))
      \<and> parses float_py (''10.001'', ''105.0'', ''3'')"
    by code_simp
  have n: "\<not> displaced float_py MIN_LAT_MOV MIN_LON_MOV
          (last (map raw_columns (take 2 trace_rounded))) (''10.001'', ''105.0'', ''3'')"
    by code_simp
  have one: "data_moving_of float_py
       (map raw_columns (take 3 trace_sampled) @ [(''0.01'', ''0.0'', ''4'')])
       = Inr [(''0.0'', ''0.0'', ''3''), (''0.01'', ''0.0'', ''4'')]"
    using data_moving_two_stage [of "map raw_columns (take 3 trace_sampled)" float_py
        "[(''0.0'', ''0.0'', ''3'')]" "(''0.01'', ''0.0'', ''4'')"] a d
    by simp
  have two: "data_moving_of float_py
       (map raw_columns (take 2 trace_rounded) @ [(''10.001'', ''105.0'', ''3'')]) = Inr []"
    using data_moving_two_stage [of "map raw_columns (take 2 trace_rounded)" float_py
        "[]" "(''10.001'', ''105.0'', ''3'')"] b n
    by simp
  show ?thesis using a b n one two by simp
qed

text \<open>
  Claim C6, as amended.  The reducer is not idempotent (see the example that follows the
  theorem).  Its output rows have three fields while it reads the fields at positions 3, 4
  and 9, so run on its own output it writes the empty trace when that output is empty and
  raises an \<open>IndexError\<close> otherwise.  On the level of the rows \<open>[latitude, longitude,
  time]\<close>, the filter applied to its own result drops the first two rows and keeps all the
  others.
\<close>

theorem reduse_file_rerun:
  "(reduse_file pf rows = Inr out \<longrightarrow>
      reduse_file pf out = (if out = [] then Inr [] else Inl IndexError))
 \<and> (data_moving_of pf data = Inr dm \<longrightarrow> data_moving_of pf dm = Inr (drop 2 dm))"
proof (intro conjI impI)
  assume "reduse_file pf rows = Inr out"
  then obtain dm' where out: "out = map written_row dm'"
    by (auto simp: reduse_file_Inr)
  show "reduse_file pf out = (if out = [] then Inr [] else Inl IndexError)"
  proof (cases "out = []")
    case True
    then show ?thesis by (simp add: reduse_file_def data_moving_of_short)
  next
    case False
    then obtain r where "r \<in> set out" by (cases out) auto
    then have "r \<in> set out \<and> length r = 3" by (auto simp: out written_row_def)
    then have "\<not> (\<forall>r\<in>set out. 9 \<le> length r)" by force
    then have "map_err select_columns out = Inl IndexError"
      by (simp only: map_err_select_columns if_False)
    then show ?thesis using False by (simp add: reduse_file_def)
  qed
next
  assume "data_moving_of pf data = Inr dm"
  then show "data_moving_of pf dm = Inr (drop 2 dm)" by (rule data_moving_of_rerun)
qed

text \<open>
  Claim C6 fails as stated: the reducer run on the two rows it wrote for \<open>trace_sampled\<close>
  raises an \<open>IndexError\<close>.
\<close>

theorem reduse_file_rerun_counterexample:
  "reduse_file float_py trace_sampled = Inr [[''0.0'', ''0.0'', ''3''], [''0.01'', ''0.0'', ''4'']]
   \<and> reduse_file float_py [[''0.0'', ''0.0'', ''3''], [''0.01'', ''0.0'', ''4'']] = Inl IndexError"
  by code_simp

text \<open>The amended claim C6 at \<open>trace_sampled\<close>.\<close>

theorem reduse_file_rerun_witness:
  "reduse_file float_py trace_sampled = Inr [[''0.0'', ''0.0'', ''3''], [''0.01'', ''0.0'', ''4'']]
   \<and> reduse_file float_py [[''0.0'', ''0.0'', ''3''], [''0.01'', ''0.0'', ''4'']] = Inl IndexError
   \<and> data_moving_of float_py (map raw_columns trace_sampled)
        = Inr [(''0.0'', ''0.0'', ''3''), (''0.01'', ''0.0'', ''4'')]
   \<and> data_moving_of float_py [(''0.0'', ''0.0'', ''3''), (''0.01'', ''0.0'', ''4'')] = Inr []"
proof -
  have e: "reduse_file float_py trace_sampled
             = Inr [[''0.0'', ''0.0'', ''3''], [''0.01'', ''0.0'', ''4'']]"
    by code_simp
  have d: "data_moving_of float_py (map raw_columns trace_sampled)
        = Inr [(''0.0'', ''0.0'', ''3''), (''0.01'', ''0.0'', ''4'')]"
    by code_simp
  show ?thesis
    using reduse_file_rerun [of float_py trace_sampled
        "[[''0.0'', ''0.0'', ''3''], [''0.01'', ''0.0'', ''4'']]"
        "map raw_columns trace_sampled" "[(''0.0'', ''0.0'', ''3''), (''0.01'', ''0.0'', ''4'')]"]
      e d
    by simp
qed

section \<open>Properties of the Map Matcher and the Route Collector\<close>

lemma add_route_id_rules:
  "add_route_id g s e \<longleftrightarrow> long_edge_rule g s e \<or> short_edge_rule g s e"
  by (simp add: add_route_id_def long_edge_rule_def short_edge_rule_def mult.commute)

lemma match_edge_cases:
  "match_edge g s t r e = r \<or>
   (match_edge g s t r e = r @ [(e, t)] \<and> add_route_id g s e
      \<and> e \<notin> fst ` set (last_entries NUM_RETURN_JOURNEY r))"
  by (simp add: match_edge_def)

lemma foldl_match_edge:
  "\<exists>new. foldl (match_edge g s t) r es = r @ new
     \<and> (\<forall>x\<in>set new. snd x = t \<and> fst x \<in> set es \<and> add_route_id g s (fst x))"
proof (induction es arbitrary: r)
  case Nil
  then show ?case by simp
next
  case (Cons e es)
  from Cons[of "match_edge g s t r e"] obtain new
    where new: "foldl (match_edge g s t) (match_edge g s t r e) es = match_edge g s t r e @ new"
      "\<forall>x\<in>set new. snd x = t \<and> fst x \<in> set es \<and> add_route_id g s (fst x)"
    by blast
  from match_edge_cases[of g s t r e] show ?case
  proof
    assume "match_edge g s t r e = r"
    then have "foldl (match_edge g s t) r (e # es) = r @ new
     \<and> (\<forall>x\<in>set new. snd x = t \<and> fst x \<in> set (e # es) \<and> add_route_id g s (fst x))"
      using new by simp
    then show ?thesis by blast
  next
    assume a: "match_edge g s t r e = r @ [(e, t)] \<and> add_route_id g s e
      \<and> e \<notin> fst ` set (last_entries NUM_RETURN_JOURNEY r)"
    then have "foldl (match_edge g s t) r (e # es) = r @ ((e, t) # new)
     \<and> (\<forall>x\<in>set ((e, t) # new). snd x = t \<and> fst x \<in> set (e # es) \<and> add_route_id g s (fst x))"
      using new by simp
    then show ?thesis by blast
  qed
qed

lemma match_segment_new:
  "\<exists>new. match_segment g r (p, c, t) = r @ new
     \<and> (\<forall>x\<in>set new. snd x = t \<and> fst x \<in> set (rtree_intersection g (p, c))
            \<and> add_route_id g (p, c) (fst x))"
  using foldl_match_edge[of g "(p, c)" t r "rtree_intersection g (p, c)"]
  by (simp add: match_segment_def)





lemma suppressed_Nil: "suppressed k []"
  by (simp add: suppressed_def)

lemma suppressed_snoc:
  assumes "suppressed k r" "e \<notin> fst ` set (last_entries k r)"
  shows "suppressed k (r @ [(e, t)])"
  unfolding suppressed_def
proof (intro allI impI)
  fix j i
  assume j: "j < length (r @ [(e, t)])" and i: "i < j"
    and eq: "fst ((r @ [(e, t)]) ! i) = fst ((r @ [(e, t)]) ! j)"
  show "k \<le> j - i - 1"
  proof (cases "j < length r")
    case True
    then have "fst (r ! i) = fst (r ! j)" using eq i by (simp add: nth_append)
    then show ?thesis using assms(1) True i by (simp add: suppressed_def)
  next
    case False
    then have jl: "j = length r" using j by simp
    then have ei: "fst (r ! i) = e" using eq i by (simp add: nth_append)
    show ?thesis
    proof (rule ccontr)
      assume n: "\<not> k \<le> j - i - 1"
      then have k0: "k \<noteq> 0" by simp
      have lo: "length r - k \<le> i" using n jl i by arith
      have "r ! i = drop (length r - k) r ! (i - (length r - k))"
        using lo i jl by simp
      moreover have "i - (length r - k) < length (drop (length r - k) r)"
        using lo i jl by simp
      ultimately have "r ! i \<in> set (drop (length r - k) r)"
        by (metis nth_mem)
      then have "e \<in> fst ` set (last_entries k r)"
        using ei k0 by (auto simp: last_entries_def)
      then show False using assms(2) by simp
    qed
  qed
qed

lemma suppressed_match_edge:
  "suppressed NUM_RETURN_JOURNEY r \<Longrightarrow> suppressed NUM_RETURN_JOURNEY (match_edge g s t r e)"
  using match_edge_cases[of g s t r e] by (auto intro: suppressed_snoc)

lemma suppressed_foldl_match_edge:
  "suppressed NUM_RETURN_JOURNEY r \<Longrightarrow>
     suppressed NUM_RETURN_JOURNEY (foldl (match_edge g s t) r es)"
  by (induction es arbitrary: r) (auto intro: suppressed_match_edge)

lemma suppressed_match_segment:
  "suppressed NUM_RETURN_JOURNEY r \<Longrightarrow> suppressed NUM_RETURN_JOURNEY (match_segment g r seg)"
  by (cases seg) (auto simp: match_segment_def intro: suppressed_foldl_match_edge)

lemma suppressed_foldl_match_segment:
  "suppressed NUM_RETURN_JOURNEY r \<Longrightarrow>
     suppressed NUM_RETURN_JOURNEY (foldl (match_segment g) r segs)"
  by (induction segs arbitrary: r) (auto intro: suppressed_match_segment)

lemma suppressed_build_route: "suppressed NUM_RETURN_JOURNEY (build_route g coords timestamps)"
  unfolding build_route_def by (intro suppressed_foldl_match_segment suppressed_Nil)

lemma suppressed_route_file: "suppressed NUM_RETURN_JOURNEY (route_file g pf rows)"
  by (auto simp: route_file_def route_of_trace_def suppressed_Nil suppressed_build_route
      split: sum.splits)

lemma find_routes_entry:
  "(file, route) \<in> set (find_routes g pf dir) \<longleftrightarrow>
     (\<exists>rows. (file, rows) \<in> set dir \<and> is_csv file \<and> route = route_file g pf rows)"
  by (auto simp: find_routes_def csv_files_def image_iff)














text \<open>
  Claim C1.  For a trace segment and a candidate edge, the flag \<open>add_route_id\<close> is set
  exactly when the long-edge rule or the short-edge rule holds (intersection longer than
  80 percent of the segment; or edge strictly shorter than the segment and intersection
  longer than 70 percent of the edge).  Processing a segment only appends to the route,
  and every entry it appends names a candidate edge of the segment that satisfies one of
  the two rules: an edge failing both is never appended for that segment.
\<close>

theorem match_segment_rules:
  "(add_route_id g s e \<longleftrightarrow> long_edge_rule g s e \<or> short_edge_rule g s e)
   \<and> (\<exists>new. match_segment g route (previous, current, timestamp) = route @ new
         \<and> (\<forall>x\<in>set new. fst x \<in> set (rtree_intersection g (previous, current))
               \<and> (long_edge_rule g (previous, current) (fst x)
                    \<or> short_edge_rule g (previous, current) (fst x))))"
proof -
  from match_segment_new[of g route previous current timestamp] obtain new
    where n: "match_segment g route (previous, current, timestamp) = route @ new"
      "\<forall>x\<in>set new. snd x = timestamp \<and> fst x \<in> set (rtree_intersection g (previous, current))
            \<and> add_route_id g (previous, current) (fst x)"
    by blast
  then have "\<forall>x\<in>set new. fst x \<in> set (rtree_intersection g (previous, current))
               \<and> (long_edge_rule g (previous, current) (fst x)
                    \<or> short_edge_rule g (previous, current) (fst x))"
    by (simp add: add_route_id_rules)
  then show ?thesis using n(1) add_route_id_rules[of g s e] by blast
qed

text \<open>
  Claim C1 in \<open>corridor_geometry\<close>: edge 1 is accepted by the long-edge rule, edge 2 by the
  short-edge rule only, edge 3 fails both and is not in the route.
\<close>

theorem match_segment_rules_witness:
  "add_route_id corridor_geometry ((Finite 0, Finite 0), (Finite 10, Finite 0)) 1
   \<and> long_edge_rule corridor_geometry ((Finite 0, Finite 0), (Finite 10, Finite 0)) 1
   \<and> add_route_id corridor_geometry ((Finite 0, Finite 0), (Finite 10, Finite 0)) 2
   \<and> \<not> long_edge_rule corridor_geometry ((Finite 0, Finite 0), (Finite 10, Finite 0)) 2
   \<and> short_edge_rule corridor_geometry ((Finite 0, Finite 0), (Finite 10, Finite 0)) 2
   \<and> \<not> add_route_id corridor_geometry ((Finite 0, Finite 0), (Finite 10, Finite 0)) 3
   \<and> \<not> long_edge_rule corridor_geometry ((Finite 0, Finite 0), (Finite 10, Finite 0)) 3
   \<and> \<not> short_edge_rule corridor_geometry ((Finite 0, Finite 0), (Finite 10, Finite 0)) 3
   \<and> match_segment corridor_geometry [] ((Finite 0, Finite 0), (Finite 10, Finite 0), Num (Finite 100))
       = [(1, Num (Finite 100)), (2, Num (Finite 100))]"
proof -
  have r: "long_edge_rule corridor_geometry ((Finite 0, Finite 0), (Finite 10, Finite 0)) 1"
    "\<not> long_edge_rule corridor_geometry ((Finite 0, Finite 0), (Finite 10, Finite 0)) 2"
    "short_edge_rule corridor_geometry ((Finite 0, Finite 0), (Finite 10, Finite 0)) 2"
    "\<not> long_edge_rule corridor_geometry ((Finite 0, Finite 0), (Finite 10, Finite 0)) 3"
    "\<not> short_edge_rule corridor_geometry ((Finite 0, Finite 0), (Finite 10, Finite 0)) 3"
    by (simp_all add: long_edge_rule_def short_edge_rule_def corridor_geometry_def)
  have m: "match_segment corridor_geometry [] ((Finite 0, Finite 0), (Finite 10, Finite 0), Num (Finite 100))
       = [(1, Num (Finite 100)), (2, Num (Finite 100))]"
    by (simp add: match_segment_def match_edge_def add_route_id_def corridor_geometry_def
        last_entries_def NUM_RETURN_JOURNEY_def)
  show ?thesis
    using match_segment_rules [of corridor_geometry "((Finite 0, Finite 0), (Finite 10, Finite 0))" 1 "[]"
        "(Finite 0, Finite 0)" "(Finite 10, Finite 0)" "Num (Finite 100)"]
      match_segment_rules [of corridor_geometry "((Finite 0, Finite 0), (Finite 10, Finite 0))" 2 "[]"
        "(Finite 0, Finite 0)" "(Finite 10, Finite 0)" "Num (Finite 100)"]
      match_segment_rules [of corridor_geometry "((Finite 0, Finite 0), (Finite 10, Finite 0))" 3 "[]"
        "(Finite 0, Finite 0)" "(Finite 10, Finite 0)" "Num (Finite 100)"]
      r m
    by simp
qed

text \<open>
  Claim C2.  In every route file that \<open>find_routes\<close> writes, two entries with the same edge
  identifier have at least \<open>NUM_RETURN_JOURNEY\<close> = 5 entries between them.
\<close>

theorem find_routes_suppression:
  assumes "(file, route) \<in> set (find_routes g pf gps_points_folder)"
    "i < j" "j < length route" "fst (route ! i) = fst (route ! j)"
  shows "NUM_RETURN_JOURNEY \<le> j - i - 1 \<and> 5 \<le> j - i - 1"
proof -
  from assms(1) obtain rows where "route = route_file g pf rows"
    by (auto simp: find_routes_entry)
  then have "suppressed NUM_RETURN_JOURNEY route" by (simp add: suppressed_route_file)
  then have "NUM_RETURN_JOURNEY \<le> j - i - 1"
    using assms(2-4) by (simp add: suppressed_def)
  then show ?thesis by (simp add: NUM_RETURN_JOURNEY_def)
qed

lemma route_ring:
  "route_of_trace ring_geometry float_py trace_ring
     = Inr [(0, Num (Finite 100)), (1, Num (Finite 200)), (2, Num (Finite 300)), (3, Num (Finite 400)),
        (4, Num (Finite 500)), (5, Num (Finite 600)), (0, Num (Finite 700))]"
  by code_simp

text \<open>
  Claim C2 on a trace that comes back to edge 0 after five other edges: the entries at
  positions 0 and 6 of the route both name edge 0.
\<close>

theorem find_routes_suppression_witness:
  "(''ring.csv'', [(0, Num (Finite 100)), (1, Num (Finite 200)), (2, Num (Finite 300)), (3, Num (Finite 400)),
        (4, Num (Finite 500)), (5, Num (Finite 600)), (0, Num (Finite 700))])
      \<in> set (find_routes ring_geometry float_py [(''ring.csv'', trace_ring)])
   \<and> (0 :: nat) < 6
   \<and> 6 < length [(0 :: int, Num (Finite 100)), (1, Num (Finite 200)), (2, Num (Finite 300)),
             (3, Num (Finite 400)), (4, Num (Finite 500)), (5, Num (Finite 600)),
             (0, Num (Finite 700))]
   \<and> fst ([(0 :: int, Num (Finite 100)), (1, Num (Finite 200)), (2, Num (Finite 300)),
             (3, Num (Finite 400)), (4, Num (Finite 500)), (5, Num (Finite 600)),
             (0, Num (Finite 700))] ! 0)
       = fst ([(0 :: int, Num (Finite 100)), (1, Num (Finite 200)), (2, Num (Finite 300)),
             (3, Num (Finite 400)), (4, Num (Finite 500)), (5, Num (Finite 600)),
             (0, Num (Finite 700))] ! 6)
   \<and> NUM_RETURN_JOURNEY \<le> 6 - 0 - 1"
proof -
  have m: "(''ring.csv'', [(0, Num (Finite 100)), (1, Num (Finite 200)), (2, Num (Finite 300)), (3, Num (Finite 400)),
        (4, Num (Finite 500)), (5, Num (Finite 600)), (0, Num (Finite 700))])
      \<in> set (find_routes ring_geometry float_py [(''ring.csv'', trace_ring)])"
    by (simp add: find_routes_def csv_files_def is_csv_def suffix_to_prefix route_file_def route_ring)
  show ?thesis
    using find_routes_suppression [OF m, of 0 6] m by simp
qed













text \<open>
  A trace whose rows have no time is matched, with empty strings for timestamps; the
  collector then stops at \<open>int\<close> of the empty string and writes nothing.
\<close>

lemma collector_stops_without_time:
  "find_routes ring_geometry float_py batch_without_time = [(''1.csv'', [(0, Str [])])]
   \<and> create_single_route_file float_py int_py
        (find_routes ring_geometry float_py batch_without_time) = Inl ValueError"
  by code_simp

section \<open>Properties of the Traffic Aggregator\<close>

lemma map_bump_absent: "k \<notin> fst ` set lut \<Longrightarrow> map (bump k) lut = lut"
  by (induction lut) (auto simp: bump_def)

lemma count_edge_closed:
  assumes "distinct (map fst lut)"
  shows "count_edge lut k =
           (if k \<in> fst ` set lut then Inr (map (bump k) lut) else Inl (KeyError k))"
proof (cases "k \<in> fst ` set lut")
  case False
  then have "map_of lut k = None" by (simp add: map_of_eq_None_iff)
  then show ?thesis using False by (simp add: count_edge_def)
next
  case True
  then obtain r where r: "map_of lut k = Some r"
    by (cases "map_of lut k") (auto simp: map_of_eq_None_iff)
  have "AList.update k (r\<lparr>vehicle_co := vehicle_co r + 1\<rparr>) lut = map (bump k) lut"
    using assms r
  proof (induction lut)
    case Nil
    then show ?case by simp
  next
    case (Cons a lut)
    obtain k' r' where a: "a = (k', r')" by (cases a)
    show ?case
    proof (cases "k' = k")
      case True
      then have "k \<notin> fst ` set lut" using Cons.prems(1) by (auto simp: a)
      then show ?thesis using Cons.prems(2) True by (simp add: a map_bump_absent) (simp add: bump_def)
    next
      case False
      then show ?thesis using Cons by (simp add: a bump_def)
    qed
  qed
  then show ?thesis using True r by (simp add: count_edge_def)
qed

lemma map_fst_bump: "map fst (map (bump k) lut) = map fst lut"
  by (simp add: bump_def comp_def)

lemma add_counts_bump: "add_counts es (bump e kr) = add_counts (e # es) kr"
  by (cases kr) (auto simp: add_counts_def bump_def)

lemma add_counts_Nil: "map (add_counts []) lut = lut"
  by (induction lut) (auto simp: add_counts_def)

lemma count_edges_closed:
  assumes "distinct (map fst lut)"
  shows "count_edges lut es =
           (if set es \<subseteq> fst ` set lut then Inr (map (add_counts es) lut)
            else Inl (KeyError (hd (filter (\<lambda>k. k \<notin> fst ` set lut) es))))"
  using assms
proof (induction es arbitrary: lut)
  case Nil
  then show ?case by (simp add: add_counts_Nil)
next
  case (Cons e es)
  show ?case
  proof (cases "e \<in> fst ` set lut")
    case False
    then show ?thesis using Cons.prems by (simp add: count_edge_closed)
  next
    case True
    have d: "distinct (map fst (map (bump e) lut))"
      using Cons.prems by (simp only: map_fst_bump)
    have k: "fst ` set (map (bump e) lut) = fst ` set lut"
      using map_fst_bump[of e lut] by (metis set_map)
    have "count_edges lut (e # es) = count_edges (map (bump e) lut) es"
      using True Cons.prems by (simp add: count_edge_closed)
    also have "\<dots> = (if set es \<subseteq> fst ` set lut
            then Inr (map (add_counts es) (map (bump e) lut))
            else Inl (KeyError (hd (filter (\<lambda>k. k \<notin> fst ` set lut) es))))"
      using Cons.IH[OF d] by (simp only: k)
    also have "map (add_counts es) (map (bump e) lut) = map (add_counts (e # es)) lut"
      by (simp add: comp_def add_counts_bump)
    finally show ?thesis using True by simp
  qed
qed

lemma set_update_subset: "set (AList.update k v al) \<subseteq> insert (k, v) (set al)"
  by (induction al) auto

lemma foldl_insert_road:
  assumes "distinct (map fst lut)" "\<forall>kr\<in>set lut. g_id (snd kr) = fst kr \<and> vehicle_co (snd kr) = 0"
  shows "distinct (map fst (foldl insert_road lut roads))
       \<and> fst ` set (foldl insert_road lut roads) = fst ` set lut \<union> g_id ` set roads
       \<and> (\<forall>kr\<in>set (foldl insert_road lut roads). g_id (snd kr) = fst kr \<and> vehicle_co (snd kr) = 0)"
  using assms
proof (induction roads arbitrary: lut)
  case Nil
  then show ?case by simp
next
  case (Cons r roads)
  have d: "distinct (map fst (insert_road lut r))"
    using Cons.prems(1) by (simp add: insert_road_def distinct_update)
  have v: "\<forall>kr\<in>set (insert_road lut r). g_id (snd kr) = fst kr \<and> vehicle_co (snd kr) = 0"
    using Cons.prems(2) set_update_subset[of "g_id r" "r\<lparr>vehicle_co := 0\<rparr>" lut]
    by (auto simp: insert_road_def)
  have k: "fst ` set (insert_road lut r) = insert (g_id r) (fst ` set lut)"
    by (simp add: insert_road_def dom_update)
  from Cons.IH[OF d v] show ?case by (simp add: k)
qed

lemma init_lut_props:
  "distinct (map fst (init_lut roads))
   \<and> fst ` set (init_lut roads) = g_id ` set roads
   \<and> (\<forall>kr\<in>set (init_lut roads). g_id (snd kr) = fst kr \<and> vehicle_co (snd kr) = 0)"
  using foldl_insert_road[of "[]" roads] by (simp add: init_lut_def)

lemma add_traffic_count_closed:
  "add_traffic_count_to_road_network road_network routes_folder =
     (if set (route_edges routes_folder) \<subseteq> g_id ` set road_network
      then Inr (map (\<lambda>kr. snd (add_counts (route_edges routes_folder) kr)) (init_lut road_network))
      else Inl (KeyError (hd (filter (\<lambda>k. k \<notin> g_id ` set road_network)
                                (route_edges routes_folder)))))"
  using init_lut_props[of road_network]
  by (simp add: add_traffic_count_to_road_network_def count_edges_closed comp_def)

lemma int_sum_list: "int (sum_list (map f ks)) = (\<Sum>k\<leftarrow>ks. int (f k))"
  by (induction ks) auto

lemma sum_count_keys:
  assumes "distinct ks" "set es \<subseteq> set ks"
  shows "(\<Sum>k\<leftarrow>ks. int (count_list es k)) = int (length es)"
proof -
  have "(\<Sum>k\<leftarrow>ks. count_list es k) = sum (count_list es) (set ks)"
    using assms(1) by (rule sum_list_distinct_conv_sum_set)
  also have "\<dots> = length es" using assms(2) by (intro sum_count_set) auto
  finally have "int (\<Sum>k\<leftarrow>ks. count_list es k) = int (length es)" by simp
  then show ?thesis by (simp only: int_sum_list)
qed

lemma counted_roads:
  assumes "\<forall>kr\<in>set lut. g_id (snd kr) = fst kr \<and> vehicle_co (snd kr) = 0"
  shows "map g_id (map (\<lambda>kr. snd (add_counts es kr)) lut) = map fst lut
       \<and> map vehicle_co (map (\<lambda>kr. snd (add_counts es kr)) lut)
           = map (\<lambda>k. int (count_list es k)) (map fst lut)"
  using assms by (induction lut) (auto simp: add_counts_def)

lemma route_edges_append:
  "route_edges (a @ b) = route_edges a @ route_edges b"
  by (simp add: route_edges_def csv_files_def)

text \<open>
  Claim C8, as amended.  The claim subtracts the entries that name an edge missing from
  the network; the aggregator has no such case, it stops with a \<open>KeyError\<close> at the first of
  them and returns no counts (see the example that follows the theorem).  What holds when
  every entry of every route file names an edge of the network: the aggregator returns one
  road per edge identifier of the network; all counts start at zero; the count of a road
  is the number of route entries that name it, repeats within a route included; the
  counts add up to the number of route entries; and with more route files folded in no
  count gets smaller.
\<close>

theorem traffic_count_conservation:
  assumes "set (route_edges routes_folder) \<subseteq> g_id ` set road_network"
  shows "\<exists>result. add_traffic_count_to_road_network road_network routes_folder = Inr result
     \<and> (\<forall>kr\<in>set (init_lut road_network). vehicle_co (snd kr) = 0)
     \<and> distinct (map g_id result) \<and> set (map g_id result) = g_id ` set road_network
     \<and> (\<forall>r\<in>set result. vehicle_co r = int (count_list (route_edges routes_folder) (g_id r)))
     \<and> sum_list (map vehicle_co result) = int (length (route_edges routes_folder))
     \<and> (\<forall>more result'.
           add_traffic_count_to_road_network road_network (routes_folder @ more) = Inr result'
           \<longrightarrow> map g_id result' = map g_id result
               \<and> (\<forall>n < length result. vehicle_co (result ! n) \<le> vehicle_co (result' ! n)))"
proof -
  define es where "es = route_edges routes_folder"
  define lut where "lut = init_lut road_network"
  define result where "result = map (\<lambda>kr. snd (add_counts es kr)) lut"
  have p: "distinct (map fst lut)" "fst ` set lut = g_id ` set road_network"
    "\<forall>kr\<in>set lut. g_id (snd kr) = fst kr \<and> vehicle_co (snd kr) = 0"
    using init_lut_props[of road_network] by (simp_all add: lut_def)
  have r: "add_traffic_count_to_road_network road_network routes_folder = Inr result"
    using assms by (simp add: add_traffic_count_closed result_def es_def lut_def)
  have ids: "map g_id result = map fst lut"
    and cos: "map vehicle_co result = map (\<lambda>k. int (count_list es k)) (map fst lut)"
    using counted_roads[OF p(3), of es] by (simp_all add: result_def)
  have z: "\<forall>kr\<in>set (init_lut road_network). vehicle_co (snd kr) = 0"
    using p(3) by (simp add: lut_def)
  have d: "distinct (map g_id result)" using p(1) by (simp only: ids)
  have s: "set (map g_id result) = g_id ` set road_network"
    using p(2) by (simp only: ids) simp
  have each: "\<forall>r\<in>set result. vehicle_co r = int (count_list es (g_id r))"
    using p(3) by (auto simp: result_def add_counts_def)
  have "set es \<subseteq> set (map fst lut)" using assms p(2) by (simp add: es_def)
  from sum_count_keys[OF p(1) this]
  have total: "sum_list (map vehicle_co result) = int (length es)"
    by (simp only: cos)
  have mono: "\<forall>more result'.
           add_traffic_count_to_road_network road_network (routes_folder @ more) = Inr result'
           \<longrightarrow> map g_id result' = map g_id result
               \<and> (\<forall>n < length result. vehicle_co (result ! n) \<le> vehicle_co (result' ! n))"
  proof (intro allI impI)
    fix more result'
    assume a: "add_traffic_count_to_road_network road_network (routes_folder @ more) = Inr result'"
    define es' where "es' = route_edges (routes_folder @ more)"
    have e': "es' = es @ route_edges more" by (simp add: es'_def es_def route_edges_append)
    have r': "result' = map (\<lambda>kr. snd (add_counts es' kr)) lut"
      using a by (auto simp: add_traffic_count_closed es'_def lut_def split: if_splits)
    have ids': "map g_id result' = map fst lut"
      and cos': "map vehicle_co result' = map (\<lambda>k. int (count_list es' k)) (map fst lut)"
      using counted_roads[OF p(3), of es'] by (simp_all add: r')
    have "\<forall>n < length result. vehicle_co (result ! n) \<le> vehicle_co (result' ! n)"
    proof (intro allI impI)
      fix n assume n: "n < length result"
      then have nl: "n < length lut" by (simp add: result_def)
      have "vehicle_co (result ! n) = map vehicle_co result ! n" using n by simp
      also have "\<dots> = int (count_list es (fst (lut ! n)))" using nl by (simp add: cos)
      also have "\<dots> \<le> int (count_list es' (fst (lut ! n)))" by (simp add: e')
      also have "\<dots> = map vehicle_co result' ! n" using nl by (simp add: cos')
      also have "\<dots> = vehicle_co (result' ! n)" using nl by (simp add: r')
      finally show "vehicle_co (result ! n) \<le> vehicle_co (result' ! n)" .
    qed
    then show "map g_id result' = map g_id result
               \<and> (\<forall>n < length result. vehicle_co (result ! n) \<le> vehicle_co (result' ! n))"
      by (simp add: ids ids')
  qed
  show ?thesis using r z d s each total mono unfolding es_def by blast
qed

text \<open>
  Claim C8 fails as stated: a route of two entries, the second naming edge 9 that is not in
  the network, gives no counts at all rather than counts that add up to one.
\<close>

theorem traffic_count_conservation_counterexample:
  "add_traffic_count_to_road_network two_roads [(''a.csv'', [(1, 100), (9, 200)])]
     = Inl (KeyError 9)
   \<and> length (route_edges [(''a.csv'', [(1, 100), (9, 200)])]) = 2
   \<and> filter (\<lambda>k. k \<notin> g_id ` set two_roads) (route_edges [(''a.csv'', [(1, 100), (9, 200)])]) = [9]"
  by code_simp

text \<open>The amended claim C8 for two roads and three route files with three entries in all.\<close>

theorem traffic_count_conservation_witness:
  "list_all (\<lambda>k. k \<in> g_id ` set two_roads) (route_edges routes_clean)
   \<and> add_traffic_count_to_road_network two_roads routes_clean
       = Inr [\<lparr>g_id = 1, vehicle_co = 2\<rparr>, \<lparr>g_id = 2, vehicle_co = 1\<rparr>]
   \<and> sum_list (map vehicle_co [\<lparr>g_id = 1, vehicle_co = 2\<rparr>, \<lparr>g_id = 2, vehicle_co = 1\<rparr>])
       = int (length (route_edges routes_clean))
   \<and> length (route_edges routes_clean) = 3"
proof -
  have h: "set (route_edges routes_clean) \<subseteq> g_id ` set two_roads"
    by code_simp
  have e: "add_traffic_count_to_road_network two_roads routes_clean
       = Inr [\<lparr>g_id = 1, vehicle_co = 2\<rparr>, \<lparr>g_id = 2, vehicle_co = 1\<rparr>]"
    by code_simp
  have l: "length (route_edges routes_clean) = 3" by code_simp
  from traffic_count_conservation [OF h] obtain result
    where "add_traffic_count_to_road_network two_roads routes_clean = Inr result"
      "sum_list (map vehicle_co result) = int (length (route_edges routes_clean))"
    by blast
  then have "sum_list (map vehicle_co [\<lparr>g_id = 1, vehicle_co = 2\<rparr>, \<lparr>g_id = 2, vehicle_co = 1\<rparr>])
       = int (length (route_edges routes_clean))"
    using e by simp
  then show ?thesis using h e l by (simp add: list_all_iff subset_iff)
qed

text \<open>
  Claim C9, as amended.  The claim has a route entry that names an edge missing from the
  network dropped while the other routes are still counted; the aggregator does not catch
  the \<open>KeyError\<close> (see the example that follows the theorem).  What holds: when some entry of
  some route file names an edge that is not in the network, the aggregation as a whole
  ends with the \<open>KeyError\<close> of the first such entry, and no counts are returned for any
  route.
\<close>

theorem dangling_reference_aborts:
  assumes "\<not> set (route_edges routes_folder) \<subseteq> g_id ` set road_network"
  shows "add_traffic_count_to_road_network road_network routes_folder
           = Inl (KeyError (hd (filter (\<lambda>k. k \<notin> g_id ` set road_network)
                                   (route_edges routes_folder))))"
  using assms by (simp add: add_traffic_count_closed)

text \<open>
  Claim C9 fails as stated: of three route files the second names edge 9; the aggregation
  ends with \<open>KeyError 9\<close> although the first and the third file alone are counted without
  error.
\<close>

theorem dangling_reference_aborts_counterexample:
  "add_traffic_count_to_road_network two_roads routes_dangling = Inl (KeyError 9)
   \<and> add_traffic_count_to_road_network two_roads [(''a.csv'', [(1, 100), (2, 200)])]
       = Inr [\<lparr>g_id = 1, vehicle_co = 1\<rparr>, \<lparr>g_id = 2, vehicle_co = 1\<rparr>]
   \<and> add_traffic_count_to_road_network two_roads [(''c.csv'', [(1, 100)])]
       = Inr [\<lparr>g_id = 1, vehicle_co = 1\<rparr>, \<lparr>g_id = 2, vehicle_co = 0\<rparr>]"
  by code_simp

text \<open>The amended claim C9 at the same three route files.\<close>

theorem dangling_reference_aborts_witness:
  "\<not> list_all (\<lambda>k. k \<in> g_id ` set two_roads) (route_edges routes_dangling)
   \<and> hd (filter (\<lambda>k. k \<notin> g_id ` set two_roads) (route_edges routes_dangling)) = 9
   \<and> add_traffic_count_to_road_network two_roads routes_dangling = Inl (KeyError 9)"
proof -
  have h: "\<not> set (route_edges routes_dangling) \<subseteq> g_id ` set two_roads"
    by code_simp
  have f: "hd (filter (\<lambda>k. k \<notin> g_id ` set two_roads) (route_edges routes_dangling)) = 9"
    by code_simp
  have n: "\<not> list_all (\<lambda>k. k \<in> g_id ` set two_roads) (route_edges routes_dangling)"
    using h by (auto simp: list_all_iff)
  from dangling_reference_aborts [OF h] f n show ?thesis
    by simp
qed

end
